theory Spec2Isabelle
  imports Main
begin

section \<open>Python values and notification records\<close>

text \<open>
  A notification is a Python dictionary with string keys, created by the form or read
  back from \<^verbatim>\<open>notifications.json\<close>. Its field values are the JSON scalars the program
  reads and writes: \<^verbatim>\<open>None\<close>, booleans, integers and strings. Arrays, objects and
  floating-point numbers, which the program never stores in a record, are outside the
  model. A dictionary is a map from keys to values, so that a missing key is a case of
  its own.
\<close>

datatype py_error = TypeError | ValueError | OSError

datatype pyval = PNone | PBool bool | PInt int | PStr string

type_synonym notif = "string \<rightharpoonup> pyval"

text \<open>\<^verbatim>\<open>notif.get(key, default)\<close>; \<^verbatim>\<open>notif.get(key)\<close> is the call with default \<^verbatim>\<open>None\<close>.\<close>

definition dict_get :: "notif \<Rightarrow> string \<Rightarrow> pyval \<Rightarrow> pyval" where
  "dict_get n k d = (case n k of None \<Rightarrow> d | Some v \<Rightarrow> v)"

text \<open>Truth value of an object in a condition (\<^verbatim>\<open>if x\<close>, \<^verbatim>\<open>not x\<close>).\<close>

fun truthy :: "pyval \<Rightarrow> bool" where
  "truthy PNone = False"
| "truthy (PBool b) = b"
| "truthy (PInt i) = (i \<noteq> 0)"
| "truthy (PStr s) = (s \<noteq> [])"

subsection \<open>Decimal digits\<close>

text \<open>The character of a digit, and the digit a character stands for, by character code.\<close>

definition digit_char :: "nat \<Rightarrow> char" where
  "digit_char n = char_of (48 + n)"

definition digit_val :: "char \<Rightarrow> nat option" where
  "digit_val c =
     (let k = (of_char c :: nat) in if 48 \<le> k \<and> k \<le> 57 then Some (k - 48) else None)"

text \<open>\<^verbatim>\<open>str(n)\<close> of an integer: decimal, no padding, a minus sign when negative.\<close>

fun show_nat :: "nat \<Rightarrow> string" where
  "show_nat n = (if n < 10 then [digit_char n] else show_nat (n div 10) @ [digit_char (n mod 10)])"

declare show_nat.simps [simp del]

definition show_int :: "int \<Rightarrow> string" where
  "show_int i = (if i < 0 then CHR ''-'' # show_nat (nat (- i)) else show_nat (nat i))"

text \<open>\<^verbatim>\<open>str(x)\<close>, which is what an f-string field \<^verbatim>\<open>{x}\<close> inserts.\<close>

fun py_str :: "pyval \<Rightarrow> string" where
  "py_str PNone = ''None''"
| "py_str (PBool b) = (if b then ''True'' else ''False'')"
| "py_str (PInt i) = show_int i"
| "py_str (PStr s) = s"

text \<open>
  Whitespace as \<^verbatim>\<open>\s\<close> and \<^verbatim>\<open>str.strip\<close> read it, on the ASCII range: tab, line feed,
  vertical tab, form feed, carriage return, the four separators 0x1C to 0x1F, and space.
\<close>

definition is_space :: "char \<Rightarrow> bool" where
  "is_space c \<longleftrightarrow> c \<in> set [CHR 0x09, CHR 0x0A, CHR 0x0B, CHR 0x0C, CHR 0x0D,
                            CHR 0x1C, CHR 0x1D, CHR 0x1E, CHR 0x1F, CHR 0x20]"

subsection \<open>\<^verbatim>\<open>int(x)\<close>\<close>

text \<open>
  \<^verbatim>\<open>int(None)\<close> raises TypeError; a boolean is 0 or 1; an integer is itself; a string is
  stripped of surrounding whitespace and read as an optional sign followed by decimal
  digits, where single underscores may stand between digits; any other string raises
  ValueError. Digits and whitespace are those of the ASCII range.
\<close>

fun int_digits :: "nat \<Rightarrow> bool \<Rightarrow> string \<Rightarrow> nat option" where
  "int_digits acc after_digit [] = (if after_digit then Some acc else None)"
| "int_digits acc after_digit (c # cs) =
     (if c = CHR ''_'' then
        (if after_digit \<and> cs \<noteq> [] then int_digits acc False cs else None)
      else (case digit_val c of
              None \<Rightarrow> None
            | Some d \<Rightarrow> int_digits (acc * 10 + d) True cs))"

definition strip :: "string \<Rightarrow> string" where
  "strip s = rev (dropWhile is_space (rev (dropWhile is_space s)))"

definition int_of_string :: "string \<Rightarrow> py_error + int" where
  "int_of_string s =
     (case strip s of
        [] \<Rightarrow> Inl ValueError
      | c # cs \<Rightarrow>
          if c = CHR ''-'' then
            (case int_digits 0 False cs of None \<Rightarrow> Inl ValueError | Some n \<Rightarrow> Inr (- int n))
          else if c = CHR ''+'' then
            (case int_digits 0 False cs of None \<Rightarrow> Inl ValueError | Some n \<Rightarrow> Inr (int n))
          else
            (case int_digits 0 False (c # cs) of None \<Rightarrow> Inl ValueError | Some n \<Rightarrow> Inr (int n)))"

fun py_int :: "pyval \<Rightarrow> py_error + int" where
  "py_int PNone = Inl TypeError"
| "py_int (PBool b) = Inr (if b then 1 else 0)"
| "py_int (PInt i) = Inr i"
| "py_int (PStr s) = int_of_string s"

section \<open>The \<^verbatim>\<open>datetime\<close> library\<close>

text \<open>
  A \<^verbatim>\<open>datetime\<close> object, down to the second. The functions below follow the reference
  implementation of the standard library: proleptic Gregorian ordinals, \<^verbatim>\<open>weekday()\<close>
  with Monday as 0, and \<^verbatim>\<open>isocalendar()\<close>.
\<close>

record datetime =
  year :: nat
  month :: nat
  day :: nat
  hour :: nat
  minute :: nat
  second :: nat

definition is_leap :: "nat \<Rightarrow> bool" where
  "is_leap y \<longleftrightarrow> y mod 4 = 0 \<and> (y mod 100 \<noteq> 0 \<or> y mod 400 = 0)"

definition days_in_month :: "nat \<Rightarrow> nat \<Rightarrow> nat" where
  "days_in_month y m =
     (if m = 2 then (if is_leap y then 29 else 28)
      else if m = 4 \<or> m = 6 \<or> m = 9 \<or> m = 11 then 30 else 31)"

text \<open>The range checks of the \<^verbatim>\<open>datetime\<close> constructor; every object satisfies them.\<close>

definition valid_datetime :: "datetime \<Rightarrow> bool" where
  "valid_datetime dt \<longleftrightarrow>
     1 \<le> year dt \<and> year dt \<le> 9999 \<and> 1 \<le> month dt \<and> month dt \<le> 12 \<and>
     1 \<le> day dt \<and> day dt \<le> days_in_month (year dt) (month dt) \<and>
     hour dt < 24 \<and> minute dt < 60 \<and> second dt < 60"

definition days_before_year :: "int \<Rightarrow> int" where
  "days_before_year y = (let y1 = y - 1 in y1 * 365 + y1 div 4 - y1 div 100 + y1 div 400)"

definition days_before_month :: "nat \<Rightarrow> nat \<Rightarrow> int" where
  "days_before_month y m = int (sum_list (map (days_in_month y) [1..<m]))"

definition ymd2ord :: "nat \<Rightarrow> nat \<Rightarrow> nat \<Rightarrow> int" where
  "ymd2ord y m d = days_before_year (int y) + days_before_month y m + int d"

definition toordinal :: "datetime \<Rightarrow> int" where
  "toordinal dt = ymd2ord (year dt) (month dt) (day dt)"

definition weekday :: "datetime \<Rightarrow> int" where
  "weekday dt = (toordinal dt + 6) mod 7"

definition isoweek1monday :: "int \<Rightarrow> int" where
  "isoweek1monday y =
     (let firstday = days_before_year y + 1;
          firstweekday = (firstday + 6) mod 7;
          week1monday = firstday - firstweekday
      in if firstweekday > 3 then week1monday + 7 else week1monday)"

text \<open>\<^verbatim>\<open>isocalendar()\<close>: ISO year, ISO week number (from 1) and ISO weekday (from 1).\<close>

definition isocalendar :: "datetime \<Rightarrow> int \<times> int \<times> int" where
  "isocalendar dt =
     (let y = int (year dt);
          today = toordinal dt;
          week1monday = isoweek1monday y;
          week = (today - week1monday) div 7;
          wd = (today - week1monday) mod 7
      in if week < 0 then
           (let week1monday' = isoweek1monday (y - 1)
            in (y - 1, (today - week1monday') div 7 + 1, (today - week1monday') mod 7 + 1))
         else if week \<ge> 52 \<and> today \<ge> isoweek1monday (y + 1) then (y + 1, 1, wd + 1)
         else (y, week + 1, wd + 1))"

subsection \<open>\<^verbatim>\<open>strftime\<close>\<close>

text \<open>Zero-padded fields of width 2 and 4, as \<^verbatim>\<open>%m %d %H %M\<close> and \<^verbatim>\<open>%Y\<close> print them.\<close>

definition pad2 :: "nat \<Rightarrow> string" where
  "pad2 n = [digit_char (n div 10 mod 10), digit_char (n mod 10)]"

definition pad4 :: "nat \<Rightarrow> string" where
  "pad4 n = [digit_char (n div 1000 mod 10), digit_char (n div 100 mod 10),
             digit_char (n div 10 mod 10), digit_char (n mod 10)]"

text \<open>\<^verbatim>\<open>strftime("%Y-%m-%d")\<close>, \<^verbatim>\<open>strftime("%H:%M")\<close> and \<^verbatim>\<open>strftime("%Y-%m-%d %H:%M")\<close>.\<close>

definition strftime_Ymd :: "datetime \<Rightarrow> string" where
  "strftime_Ymd dt = pad4 (year dt) @ ''-'' @ pad2 (month dt) @ ''-'' @ pad2 (day dt)"

definition strftime_HM :: "datetime \<Rightarrow> string" where
  "strftime_HM dt = pad2 (hour dt) @ '':'' @ pad2 (minute dt)"

definition strftime_Ymd_HM :: "datetime \<Rightarrow> string" where
  "strftime_Ymd_HM dt = strftime_Ymd dt @ '' '' @ strftime_HM dt"

text \<open>The week key \<^verbatim>\<open>f"{year}-W{weeknum}"\<close> built from \<^verbatim>\<open>isocalendar()\<close>.\<close>

definition iso_week_str :: "datetime \<Rightarrow> string" where
  "iso_week_str dt = (case isocalendar dt of (y, w, _) \<Rightarrow> show_int y @ ''-W'' @ show_int w)"

subsection \<open>\<^verbatim>\<open>strptime\<close> with the format \<^verbatim>\<open>%Y-%m-%d %H:%M\<close>\<close>

text \<open>
  The library turns the format into a regular expression, matches it at the start of
  the input, refuses input that goes on after the match, and hands the fields to the
  \<^verbatim>\<open>datetime\<close> constructor, which checks their ranges. Every failure is a ValueError.
  A matcher returns its matches in the order backtracking tries them: the alternatives
  of a directive from left to right, whitespace longest first. On the ASCII range:
  \<^verbatim>\<open>%Y\<close> is \<^verbatim>\<open>\d\d\d\d\<close>, \<^verbatim>\<open>%m\<close> is \<^verbatim>\<open>1[0-2]|0[1-9]|[1-9]\<close>,
  \<^verbatim>\<open>%d\<close> is \<^verbatim>\<open>3[0-1]|[1-2]\d|0[1-9]|[1-9]| [1-9]\<close>, \<^verbatim>\<open>%H\<close> is \<^verbatim>\<open>2[0-3]|[0-1]\d|\d\<close>,
  \<^verbatim>\<open>%M\<close> is \<^verbatim>\<open>[0-5]\d|\d\<close>, and the space of the format is \<^verbatim>\<open>\s+\<close>.
\<close>

definition re_lit :: "char \<Rightarrow> string \<Rightarrow> string list" where
  "re_lit c s = (case s of [] \<Rightarrow> [] | x # xs \<Rightarrow> if x = c then [xs] else [])"

definition one_digit :: "(nat \<Rightarrow> bool) \<Rightarrow> string \<Rightarrow> (nat \<times> string) list" where
  "one_digit P s =
     (case s of
        [] \<Rightarrow> []
      | a # rest \<Rightarrow> (case digit_val a of
                      None \<Rightarrow> []
                    | Some x \<Rightarrow> if P x then [(x, rest)] else []))"

definition two_digits :: "(nat \<Rightarrow> bool) \<Rightarrow> (nat \<Rightarrow> bool) \<Rightarrow> string \<Rightarrow> (nat \<times> string) list" where
  "two_digits P Q s =
     (case s of
        a # b # rest \<Rightarrow> (case (digit_val a, digit_val b) of
                          (Some x, Some y) \<Rightarrow> if P x \<and> Q y then [(10 * x + y, rest)] else []
                        | _ \<Rightarrow> [])
      | _ \<Rightarrow> [])"

definition space_digit :: "string \<Rightarrow> (nat \<times> string) list" where
  "space_digit s =
     (case s of
        a # rest \<Rightarrow> if a = CHR '' '' then one_digit (\<lambda>x. 1 \<le> x) rest else []
      | _ \<Rightarrow> [])"

definition re_Y :: "string \<Rightarrow> (nat \<times> string) list" where
  "re_Y s =
     (case s of
        a # b # c # d # rest \<Rightarrow>
          (case (digit_val a, digit_val b, digit_val c, digit_val d) of
             (Some w, Some x, Some y, Some z) \<Rightarrow> [(1000 * w + 100 * x + 10 * y + z, rest)]
           | _ \<Rightarrow> [])
      | _ \<Rightarrow> [])"

definition re_m :: "string \<Rightarrow> (nat \<times> string) list" where
  "re_m s = two_digits (\<lambda>x. x = 1) (\<lambda>y. y \<le> 2) s @ two_digits (\<lambda>x. x = 0) (\<lambda>y. 1 \<le> y) s
            @ one_digit (\<lambda>x. 1 \<le> x) s"

definition re_d :: "string \<Rightarrow> (nat \<times> string) list" where
  "re_d s = two_digits (\<lambda>x. x = 3) (\<lambda>y. y \<le> 1) s
            @ two_digits (\<lambda>x. 1 \<le> x \<and> x \<le> 2) (\<lambda>y. True) s
            @ two_digits (\<lambda>x. x = 0) (\<lambda>y. 1 \<le> y) s
            @ one_digit (\<lambda>x. 1 \<le> x) s @ space_digit s"

definition re_H :: "string \<Rightarrow> (nat \<times> string) list" where
  "re_H s = two_digits (\<lambda>x. x = 2) (\<lambda>y. y \<le> 3) s @ two_digits (\<lambda>x. x \<le> 1) (\<lambda>y. True) s
            @ one_digit (\<lambda>x. True) s"

definition re_M :: "string \<Rightarrow> (nat \<times> string) list" where
  "re_M s = two_digits (\<lambda>x. x \<le> 5) (\<lambda>y. True) s @ one_digit (\<lambda>x. True) s"

definition re_spaces :: "string \<Rightarrow> string list" where
  "re_spaces s = map (\<lambda>k. drop k s) (rev [1..<Suc (length (takeWhile is_space s))])"

definition strptime_matches :: "string \<Rightarrow> ((nat \<times> nat \<times> nat \<times> nat \<times> nat) \<times> string) list" where
  "strptime_matches s =
     concat (map (\<lambda>(Y, r1). concat (map (\<lambda>r2. concat (map (\<lambda>(m, r3).
     concat (map (\<lambda>r4. concat (map (\<lambda>(d, r5). concat (map (\<lambda>r6.
     concat (map (\<lambda>(H, r7). concat (map (\<lambda>r8. map (\<lambda>(M, r9). ((Y, m, d, H, M), r9))
       (re_M r8)) (re_lit CHR '':'' r7))) (re_H r6))) (re_spaces r5))) (re_d r4)))
       (re_lit CHR ''-'' r3))) (re_m r2))) (re_lit CHR ''-'' r1))) (re_Y s))"

text \<open>The constructor \<^verbatim>\<open>datetime(year, month, day, hour, minute)\<close> with its range checks.\<close>

definition mk_datetime :: "nat \<Rightarrow> nat \<Rightarrow> nat \<Rightarrow> nat \<Rightarrow> nat \<Rightarrow> py_error + datetime" where
  "mk_datetime Y m d H M =
     (let dt = \<lparr>year = Y, month = m, day = d, hour = H, minute = M, second = 0\<rparr>
      in if valid_datetime dt then Inr dt else Inl ValueError)"

definition strptime :: "string \<Rightarrow> py_error + datetime" where
  "strptime s =
     (case strptime_matches s of
        [] \<Rightarrow> Inl ValueError
      | ((Y, m, d, H, M), rest) # _ \<Rightarrow>
          if rest \<noteq> [] then Inl ValueError else mk_datetime Y m d H M)"

section \<open>Scheduling\<close>

text \<open>
  \<^verbatim>\<open>datetime.now()\<close> reads the clock. Each function that reads it takes the instant it
  reads as an argument: \<open>should_fire\<close> reads the clock once itself, and once more through
  \<open>time_matches_now\<close>, so it takes both readings.
\<close>

definition time_matches_now :: "datetime \<Rightarrow> pyval \<Rightarrow> bool" where
  "time_matches_now now time_str \<longleftrightarrow> PStr (strftime_HM now) = time_str"

definition should_fire :: "datetime \<Rightarrow> datetime \<Rightarrow> notif \<Rightarrow> py_error + bool" where
  "should_fire now now_tm notif =
     (let repeat = dict_get notif ''repeat'' (PStr ''Once'');
          time_str = dict_get notif ''time'' (PStr ''00:00'');
          date_str = dict_get notif ''date'' PNone
      in if repeat = PStr ''Once'' then
           (if truthy (dict_get notif ''delivered'' PNone) then Inr False
            else if \<not> truthy date_str then Inr False
            else (case strptime (py_str date_str @ '' '' @ py_str time_str) of
                    Inl _ \<Rightarrow> Inr False
                  | Inr due_dt \<Rightarrow> Inr (strftime_Ymd_HM now = strftime_Ymd_HM due_dt)))
         else if repeat = PStr ''Daily'' then
           (if \<not> time_matches_now now_tm time_str then Inr False
            else Inr (dict_get notif ''last_fired_date'' PNone \<noteq> PStr (strftime_Ymd now)))
         else if repeat = PStr ''Weekly'' then
           (case py_int (dict_get notif ''created_weekday'' (PInt (weekday now))) of
              Inl e \<Rightarrow> Inl e
            | Inr w \<Rightarrow>
                if weekday now \<noteq> w then Inr False
                else if \<not> time_matches_now now_tm time_str then Inr False
                else Inr (dict_get notif ''last_fired_week'' PNone \<noteq> PStr (iso_week_str now)))
         else Inr False)"

text \<open>\<open>mark_fired\<close> updates the dictionary in place; the model returns the updated one.\<close>

definition mark_fired :: "datetime \<Rightarrow> notif \<Rightarrow> notif" where
  "mark_fired now notif =
     (let repeat = dict_get notif ''repeat'' (PStr ''Once'')
      in if repeat = PStr ''Once'' then notif(''delivered'' \<mapsto> PBool True)
         else if repeat = PStr ''Daily'' then notif(''last_fired_date'' \<mapsto> PStr (strftime_Ymd now))
         else if repeat = PStr ''Weekly'' then notif(''last_fired_week'' \<mapsto> PStr (iso_week_str now))
         else notif)"

text \<open>
  One poll of one record, as the loop body of \<open>check_notifications\<close> treats the record
  itself: the predicate at the readings \<open>now\<close> and \<open>now_tm\<close>, and the mark at a later
  reading \<open>now_mark\<close> when it is due. An exception of the predicate ends the cycle and
  leaves the record as it is. \<open>fires\<close> counts how often a record fires over successive polls.
\<close>

definition poll_record :: "datetime \<times> datetime \<times> datetime \<Rightarrow> notif \<Rightarrow> bool \<times> notif" where
  "poll_record c n =
     (case c of (now, now_tm, now_mark) \<Rightarrow>
        (case should_fire now now_tm n of
           Inr True \<Rightarrow> (True, mark_fired now_mark n)
         | _ \<Rightarrow> (False, n)))"

fun fires :: "notif \<Rightarrow> (datetime \<times> datetime \<times> datetime) list \<Rightarrow> nat" where
  "fires n [] = 0"
| "fires n (c # cs) =
     (case poll_record c n of (fired, n') \<Rightarrow> (if fired then 1 else 0) + fires n' cs)"

text \<open>The calendar minute, the calendar day and the ISO week an instant lies in.\<close>

definition minute_of :: "datetime \<Rightarrow> nat \<times> nat \<times> nat \<times> nat \<times> nat" where
  "minute_of dt = (year dt, month dt, day dt, hour dt, minute dt)"

definition date_of :: "datetime \<Rightarrow> nat \<times> nat \<times> nat" where
  "date_of dt = (year dt, month dt, day dt)"

definition iso_week_of :: "datetime \<Rightarrow> int \<times> int" where
  "iso_week_of dt = (case isocalendar dt of (y, w, _) \<Rightarrow> (y, w))"

section \<open>Delivery\<close>

text \<open>
  What \<open>_deliver_notification\<close> sees of the platform: which libraries were imported and
  which objects exist, and for every external call whether it returns or raises.
\<close>

datatype mechanism = Sound | PrimaryToast | SecondaryToast | GenericLibrary | ModalDialog

datatype sound_call = PlaySound | MessageBeep

record platform =
  is_windows :: bool
  os_nt :: bool
  sound_file :: bool
  toaster :: bool
  winotify :: bool
  plyer :: bool
  play_sound_res :: "py_error + unit"
  beep_res :: "py_error + unit"
  beep_again_res :: "py_error + unit"
  show_toast :: "pyval \<Rightarrow> pyval \<Rightarrow> py_error + unit"
  winotify_show :: "pyval \<Rightarrow> pyval \<Rightarrow> py_error + unit"
  plyer_notify :: "pyval \<Rightarrow> pyval \<Rightarrow> py_error + unit"
  showinfo :: "pyval \<Rightarrow> pyval \<Rightarrow> py_error + unit"

text \<open>A call inside \<^verbatim>\<open>try: ... except Exception: pass\<close>: whether it returned.\<close>

definition returned :: "py_error + unit \<Rightarrow> bool" where
  "returned r = (case r of Inl _ \<Rightarrow> False | Inr _ \<Rightarrow> True)"

text \<open>
  \<open>play_sound\<close> lists the calls to \<^verbatim>\<open>winsound\<close> it makes, each with whether it returned:
  nothing off Windows; the sound file when there is one, else the system beep; and the
  beep once more from the handler when the first call raised.
\<close>

definition play_sound :: "platform \<Rightarrow> (sound_call \<times> bool) list" where
  "play_sound p =
     (if \<not> is_windows p then []
      else if sound_file p then
        (if returned (play_sound_res p) then [(PlaySound, True)]
         else [(PlaySound, False), (MessageBeep, returned (beep_again_res p))])
      else
        (if returned (beep_res p) then [(MessageBeep, True)]
         else [(MessageBeep, False), (MessageBeep, returned (beep_again_res p))]))"

text \<open>
  One block \<^verbatim>\<open>if available: try: call; return; except Exception: pass\<close>: the attempt it
  makes, if any, and whether the function returns from it.
\<close>

definition attempt :: "bool \<Rightarrow> mechanism \<Rightarrow> py_error + unit \<Rightarrow> (mechanism \<times> bool) list" where
  "attempt available m r = (if available then [(m, returned r)] else [])"

definition returns_from :: "(mechanism \<times> bool) list \<Rightarrow> bool" where
  "returns_from a = (case a of [] \<Rightarrow> False | (m, ok) # _ \<Rightarrow> ok)"

text \<open>
  \<open>deliver_notification\<close> returns the mechanisms it invoked, in order, each with whether
  the call returned; \<open>Inl\<close> would be an exception leaving the function. The sound is
  listed as having played when some call of \<open>play_sound\<close> returned.
\<close>

definition deliver_notification ::
    "platform \<Rightarrow> pyval \<Rightarrow> pyval \<Rightarrow> string option \<Rightarrow> py_error + (mechanism \<times> bool) list" where
  "deliver_notification p title message image_path =
     (let a0 = [(Sound, list_ex snd (play_sound p))];
          a1 = attempt (toaster p) PrimaryToast (show_toast p title message)
      in if returns_from a1 then Inr (a0 @ a1)
         else
           let a2 = attempt (os_nt p \<and> winotify p) SecondaryToast (winotify_show p title message)
           in if returns_from a2 then Inr (a0 @ a1 @ a2)
              else
                let a3 = attempt (plyer p) GenericLibrary (plyer_notify p title message)
                in if returns_from a3 then Inr (a0 @ a1 @ a2 @ a3)
                   else Inr (a0 @ a1 @ a2 @ a3
                             @ [(ModalDialog, returned (showinfo p title message))]))"

text \<open>The place of each mechanism in the dispatch order.\<close>

fun mech_rank :: "mechanism \<Rightarrow> nat" where
  "mech_rank Sound = 0"
| "mech_rank PrimaryToast = 1"
| "mech_rank SecondaryToast = 2"
| "mech_rank GenericLibrary = 3"
| "mech_rank ModalDialog = 4"

text \<open>
  For each mechanism, the guard that stands in front of its call in
  \<open>_deliver_notification\<close>, and whether its call returns on this platform.
\<close>

fun available :: "platform \<Rightarrow> mechanism \<Rightarrow> bool" where
  "available p Sound = True"
| "available p PrimaryToast = toaster p"
| "available p SecondaryToast = (os_nt p \<and> winotify p)"
| "available p GenericLibrary = plyer p"
| "available p ModalDialog = True"

fun call_ok :: "platform \<Rightarrow> pyval \<Rightarrow> pyval \<Rightarrow> mechanism \<Rightarrow> bool" where
  "call_ok p title message Sound = list_ex snd (play_sound p)"
| "call_ok p title message PrimaryToast = returned (show_toast p title message)"
| "call_ok p title message SecondaryToast = returned (winotify_show p title message)"
| "call_ok p title message GenericLibrary = returned (plyer_notify p title message)"
| "call_ok p title message ModalDialog = returned (showinfo p title message)"

text \<open>
  \<open>send_notification\<close> hands the delivery to the UI thread with \<^verbatim>\<open>root.after\<close>, and
  delivers directly when that call raises.
\<close>

datatype handoff =
    Scheduled pyval pyval "string option"
  | Direct pyval pyval "string option" "(mechanism \<times> bool) list"


definition send_notification ::
    "platform \<Rightarrow> py_error + unit \<Rightarrow> pyval \<Rightarrow> pyval \<Rightarrow> string option \<Rightarrow> py_error + handoff" where
  "send_notification p after_res title message image_path =
     (case after_res of
        Inr _ \<Rightarrow> Inr (Scheduled title message image_path)
      | Inl _ \<Rightarrow>
          (case deliver_notification p title message image_path of
             Inl e \<Rightarrow> Inl e
           | Inr tr \<Rightarrow> Inr (Direct title message image_path tr)))"

section \<open>Persistence\<close>

text \<open>
  The file system maps a path to nothing, to a file that cannot be opened or read, or
  to the text of a file. \<^verbatim>\<open>json.dump\<close> and \<^verbatim>\<open>json.load\<close> belong to the standard
  library: they are parameters, each returning its result or the exception it raises.
\<close>

datatype file_state = Missing | Unreadable | Text string

type_synonym filesystem = "string \<Rightarrow> file_state"

record 'r codec =
  dumps :: "'r list \<Rightarrow> py_error + string"
  loads :: "string \<Rightarrow> py_error + 'r list"

datatype dialog = ShowWarning string | ShowError string

text \<open>\<^verbatim>\<open>os.path.join\<close> of a directory and a file name.\<close>

definition os_path_join :: "string \<Rightarrow> string \<Rightarrow> string" where
  "os_path_join a b =
     (if a = [] \<or> last a = CHR ''/'' \<or> last a = CHR 0x5C then a @ b else a @ CHR 0x5C # b)"

definition storage_path :: "string \<Rightarrow> string" where
  "storage_path base_dir = os_path_join base_dir ''notifications.json''"

text \<open>\<open>load_notifications\<close> returns the list and the dialogs it showed.\<close>

definition load_notifications ::
    "'r codec \<Rightarrow> filesystem \<Rightarrow> string \<Rightarrow> 'r list \<times> dialog list" where
  "load_notifications cd fs base_dir =
     (let path = storage_path base_dir
      in case fs path of
           Missing \<Rightarrow> ([], [])
         | Unreadable \<Rightarrow> ([], [ShowWarning ''Load''])
         | Text s \<Rightarrow>
             (case loads cd s of
                Inl e \<Rightarrow> ([], [ShowWarning ''Load''])
              | Inr v \<Rightarrow> (v, [])))"

text \<open>
  Writing: \<^verbatim>\<open>open(path, "w")\<close> may raise and leave the file alone; once it is open the
  file is truncated, and when the dump or a write raises, the file holds whatever had
  been written (\<open>partial_text\<close>). \<open>save_notifications\<close> returns the file system and the
  dialogs it showed; it has succeeded when it showed none.
\<close>

record writer =
  open_res :: "py_error + unit"
  write_res :: "py_error + unit"
  partial_text :: string

definition save_notifications ::
    "'r codec \<Rightarrow> writer \<Rightarrow> filesystem \<Rightarrow> string \<Rightarrow> 'r list \<Rightarrow> filesystem \<times> dialog list" where
  "save_notifications cd w fs base_dir notifications =
     (let path = storage_path base_dir
      in case open_res w of
           Inl e \<Rightarrow> (fs, [ShowError ''Save''])
         | Inr _ \<Rightarrow>
             (case dumps cd notifications of
                Inl e \<Rightarrow> (fs(path := Text (partial_text w)), [ShowError ''Save''])
              | Inr s \<Rightarrow>
                  (case write_res w of
                     Inl e \<Rightarrow> (fs(path := Text (partial_text w)), [ShowError ''Save''])
                   | Inr _ \<Rightarrow> (fs(path := Text s), []))))"

section \<open>The text of the stored file\<close>

text \<open>
  What \<^verbatim>\<open>json.dump\<close> writes for the list of records and what \<^verbatim>\<open>json.load\<close> reads from a
  text, for the lists the program stores: lists of dictionaries with string keys and
  scalar values. The order of the items of a dictionary shows in the text, so a stored
  record is the list of its items in insertion order, no key twice; \<open>as_notif\<close> is the
  dictionary the scheduler reads. A string is the UTF-8 encoding of its text, which is
  what the file, opened with \<^verbatim>\<open>encoding="utf-8"\<close>, holds of it.
\<close>

type_synonym pydict = "(string \<times> pyval) list"

definition as_notif :: "pydict \<Rightarrow> notif" where
  "as_notif d = map_of d"

text \<open>\<^verbatim>\<open>d[k] = v\<close>: a known key keeps its place, a new key goes to the end.\<close>

fun dict_set :: "pydict \<Rightarrow> string \<Rightarrow> pyval \<Rightarrow> pydict" where
  "dict_set [] k v = [(k, v)]"
| "dict_set ((k', v') # d) k v = (if k' = k then (k, v) # d else (k', v') # dict_set d k v)"

definition dict_of_items :: "(string \<times> pyval) list \<Rightarrow> pydict" where
  "dict_of_items items = foldl (\<lambda>d (k, v). dict_set d k v) [] items"

subsection \<open>Base64\<close>

text \<open>
  \<^verbatim>\<open>base64.b64encode\<close> of a byte string: three bytes give four characters of the
  alphabet \<^verbatim>\<open>A-Z a-z 0-9 + /\<close>, and a last group of one or two bytes is padded with
  \<^verbatim>\<open>=\<close>. The form stores \<^verbatim>\<open>b64encode(f.read()).decode("utf-8")\<close>, the same characters
  as a string.
\<close>

type_synonym bytes = "char list"

definition b64_char :: "nat \<Rightarrow> char" where
  "b64_char n =
     (if n < 26 then char_of (65 + n)
      else if n < 52 then char_of (71 + n)
      else if n < 62 then char_of (n - 4)
      else if n = 62 then CHR ''+'' else CHR ''/'')"

definition b64_val :: "char \<Rightarrow> nat option" where
  "b64_val c =
     (let k = (of_char c :: nat) in
      if 65 \<le> k \<and> k \<le> 90 then Some (k - 65)
      else if 97 \<le> k \<and> k \<le> 122 then Some (k - 71)
      else if 48 \<le> k \<and> k \<le> 57 then Some (k + 4)
      else if k = 43 then Some 62
      else if k = 47 then Some 63
      else None)"

fun b64encode :: "bytes \<Rightarrow> string" where
  "b64encode [] = []"
| "b64encode [a] =
     (let x = (of_char a :: nat)
      in [b64_char (x div 4), b64_char (x mod 4 * 16), CHR ''='', CHR ''=''])"
| "b64encode [a, b] =
     (let x = (of_char a :: nat); y = (of_char b :: nat)
      in [b64_char (x div 4), b64_char (x mod 4 * 16 + y div 16), b64_char (y mod 16 * 4),
          CHR ''=''])"
| "b64encode (a # b # c # rest) =
     (let x = (of_char a :: nat); y = (of_char b :: nat); z = (of_char c :: nat)
      in [b64_char (x div 4), b64_char (x mod 4 * 16 + y div 16),
          b64_char (y mod 16 * 4 + z div 64), b64_char (z mod 64)] @ b64encode rest)"

text \<open>
  \<^verbatim>\<open>base64.b64decode\<close> with its default \<^verbatim>\<open>validate=False\<close> is \<^verbatim>\<open>binascii.a2b_base64\<close>
  in its lenient mode. The decoder keeps the position in the group of four
  (\<open>quad_pos\<close>), the bits left over from the previous character (\<open>leftchar\<close>) and
  the number of padding signs seen since the last data character (\<open>pads\<close>). A
  character outside the alphabet is skipped; a padding sign that completes a group
  of four ends the data, and an earlier one is skipped; every data character after
  the first of a group gives a byte. Data that ends inside a group raises
  \<^verbatim>\<open>binascii.Error\<close>, a ValueError. A string with a character outside ASCII raises
  ValueError before any decoding, and an argument that is no string (the values here:
  \<^verbatim>\<open>None\<close>, a boolean, an integer) raises TypeError.
\<close>

definition emit :: "nat \<Rightarrow> py_error + bytes \<Rightarrow> py_error + bytes" where
  "emit x r = (case r of Inl err \<Rightarrow> Inl err | Inr bs \<Rightarrow> Inr (char_of x # bs))"

fun a2b_base64 :: "nat \<Rightarrow> nat \<Rightarrow> nat \<Rightarrow> string \<Rightarrow> py_error + bytes" where
  "a2b_base64 quad_pos leftchar pads [] = (if quad_pos \<noteq> 0 then Inl ValueError else Inr [])"
| "a2b_base64 quad_pos leftchar pads (c # cs) =
     (if c = CHR ''='' then
        (if 2 \<le> quad_pos then
           (if 4 \<le> quad_pos + (pads + 1) then Inr []
            else a2b_base64 quad_pos leftchar (pads + 1) cs)
         else a2b_base64 quad_pos leftchar pads cs)
      else
        (case b64_val c of
           None \<Rightarrow> a2b_base64 quad_pos leftchar pads cs
         | Some v \<Rightarrow>
             (if quad_pos = 0 then a2b_base64 1 v 0 cs
              else if quad_pos = 1 then emit (leftchar * 4 + v div 16) (a2b_base64 2 (v mod 16) 0 cs)
              else if quad_pos = 2 then emit (leftchar * 16 + v div 4) (a2b_base64 3 (v mod 4) 0 cs)
              else emit (leftchar * 64 + v) (a2b_base64 0 0 0 cs))))"

definition b64decode :: "string \<Rightarrow> py_error + bytes" where
  "b64decode s =
     (if \<exists>c \<in> set s. 128 \<le> (of_char c :: nat) then Inl ValueError else a2b_base64 0 0 0 s)"

fun py_b64decode :: "pyval \<Rightarrow> py_error + bytes" where
  "py_b64decode (PStr s) = b64decode s"
| "py_b64decode _ = Inl TypeError"

subsection \<open>Writing: \<^verbatim>\<open>json.dump\<close> with \<^verbatim>\<open>ensure_ascii=False\<close> and \<^verbatim>\<open>indent=2\<close>\<close>

text \<open>
  In a string the quotation mark, the backslash and the control characters below 0x20
  are escaped: the short forms for backspace, form feed, line feed, carriage return
  and tab, and \<^verbatim>\<open>\u00XX\<close> with lower-case hexadecimal digits for the others. Every other
  character is written as it is.
\<close>

definition hex_char :: "nat \<Rightarrow> char" where
  "hex_char n = (if n < 10 then char_of (48 + n) else char_of (87 + n))"

definition escape_char :: "char \<Rightarrow> string" where
  "escape_char c =
     (if c = CHR 0x22 then [CHR 0x5C, CHR 0x22]
      else if c = CHR 0x5C then [CHR 0x5C, CHR 0x5C]
      else if c = CHR 0x0A then [CHR 0x5C, CHR ''n'']
      else if c = CHR 0x0D then [CHR 0x5C, CHR ''r'']
      else if c = CHR 0x09 then [CHR 0x5C, CHR ''t'']
      else if c = CHR 0x08 then [CHR 0x5C, CHR ''b'']
      else if c = CHR 0x0C then [CHR 0x5C, CHR ''f'']
      else if (of_char c :: nat) < 32 then
        [CHR 0x5C, CHR ''u'', CHR ''0'', CHR ''0'',
         hex_char (of_char c div 16), hex_char (of_char c mod 16)]
      else [c])"

definition json_string :: "string \<Rightarrow> string" where
  "json_string s = CHR 0x22 # concat (map escape_char s) @ [CHR 0x22]"

fun json_value :: "pyval \<Rightarrow> string" where
  "json_value PNone = ''null''"
| "json_value (PBool b) = (if b then ''true'' else ''false'')"
| "json_value (PInt i) = show_int i"
| "json_value (PStr s) = json_string s"

text \<open>
  With an indent, an empty list is \<^verbatim>\<open>[]\<close> and an empty dictionary \<^verbatim>\<open>{}\<close>; otherwise
  every item stands on a line of its own, indented by two spaces for each level, items
  are separated by a comma, and a key is separated from its value by a colon and a
  space. The values of this model are all serialisable, so the dump itself does not
  raise; the writes to the file may, which is the \<open>write_res\<close> of the writer.
\<close>

definition newline_indent :: "nat \<Rightarrow> string" where
  "newline_indent level = CHR 0x0A # replicate (2 * level) CHR '' ''"

fun join :: "string \<Rightarrow> string list \<Rightarrow> string" where
  "join sep [] = []"
| "join sep [x] = x"
| "join sep (x # y # ys) = x @ sep @ join sep (y # ys)"

definition json_member :: "string \<times> pyval \<Rightarrow> string" where
  "json_member m = json_string (fst m) @ '': '' @ json_value (snd m)"

definition json_object :: "pydict \<Rightarrow> string" where
  "json_object d =
     (if d = [] then ''{}''
      else ''{'' @ newline_indent 2 @ join ('','' @ newline_indent 2) (map json_member d)
           @ newline_indent 1 @ ''}'')"

definition json_array :: "pydict list \<Rightarrow> string" where
  "json_array ns =
     (if ns = [] then ''[]''
      else ''['' @ newline_indent 1 @ join ('','' @ newline_indent 1) (map json_object ns)
           @ newline_indent 0 @ '']'')"

definition json_dump :: "pydict list \<Rightarrow> py_error + string" where
  "json_dump ns = Inr (json_array ns)"

subsection \<open>Reading: \<^verbatim>\<open>json.load\<close>\<close>

text \<open>
  The scanner of the library, for the texts whose value is a list of flat records.
  Each function takes the text at its position and returns what it has read together
  with the text that remains, or \<open>None\<close>. Whitespace is space, tab, line feed and
  carriage return.

  Some texts are JSON, but their value is no list of records with scalar values: a
  top level that is no array, an element that is no object, a nested array or object,
  a floating-point number, \<^verbatim>\<open>NaN\<close> or \<^verbatim>\<open>Infinity\<close>, the escape of an unpaired surrogate.
  They have no value in this model: the scanning functions return \<open>None\<close> on them as
  they do on malformed text, and \<open>json_load\<close> gives ValueError for both, where the
  library returns a value for the former.
\<close>

definition is_ws :: "char \<Rightarrow> bool" where
  "is_ws c \<longleftrightarrow> c = CHR '' '' \<or> c = CHR 0x09 \<or> c = CHR 0x0A \<or> c = CHR 0x0D"

definition skip_ws :: "string \<Rightarrow> string" where
  "skip_ws s = dropWhile is_ws s"

text \<open>
  After a backslash: one of the short escapes, or \<^verbatim>\<open>u\<close> and four hexadecimal digits. The
  code point is stored in UTF-8; a high surrogate must be followed by the escape of a
  low one, and the two give one code point.
\<close>

definition hex_val :: "char \<Rightarrow> nat option" where
  "hex_val c =
     (let k = (of_char c :: nat) in
      if 48 \<le> k \<and> k \<le> 57 then Some (k - 48)
      else if 97 \<le> k \<and> k \<le> 102 then Some (k - 87)
      else if 65 \<le> k \<and> k \<le> 70 then Some (k - 55)
      else None)"

definition hex4 :: "char \<Rightarrow> char \<Rightarrow> char \<Rightarrow> char \<Rightarrow> nat option" where
  "hex4 a b c d =
     (case (hex_val a, hex_val b, hex_val c, hex_val d) of
        (Some w, Some x, Some y, Some z) \<Rightarrow> Some (((w * 16 + x) * 16 + y) * 16 + z)
      | _ \<Rightarrow> None)"

definition utf8 :: "nat \<Rightarrow> string option" where
  "utf8 cp =
     (if cp < 0x80 then Some [char_of cp]
      else if cp < 0x800 then Some [char_of (0xC0 + cp div 64), char_of (0x80 + cp mod 64)]
      else if 0xD800 \<le> cp \<and> cp < 0xE000 then None
      else if cp < 0x10000 then
        Some [char_of (0xE0 + cp div 4096), char_of (0x80 + cp div 64 mod 64),
              char_of (0x80 + cp mod 64)]
      else
        Some [char_of (0xF0 + cp div 262144), char_of (0x80 + cp div 4096 mod 64),
              char_of (0x80 + cp div 64 mod 64), char_of (0x80 + cp mod 64)])"

definition unescape :: "char \<Rightarrow> char option" where
  "unescape e =
     (if e = CHR 0x22 \<or> e = CHR 0x5C \<or> e = CHR ''/'' then Some e
      else if e = CHR ''b'' then Some (CHR 0x08)
      else if e = CHR ''f'' then Some (CHR 0x0C)
      else if e = CHR ''n'' then Some (CHR 0x0A)
      else if e = CHR ''r'' then Some (CHR 0x0D)
      else if e = CHR ''t'' then Some (CHR 0x09)
      else None)"

definition scan_low :: "nat \<Rightarrow> string \<Rightarrow> (string \<times> string) option" where
  "scan_low hi r =
     (if length r < 6 \<or> r ! 0 \<noteq> CHR 0x5C \<or> r ! 1 \<noteq> CHR ''u'' then None
      else
        (case hex4 (r ! 2) (r ! 3) (r ! 4) (r ! 5) of
           None \<Rightarrow> None
         | Some lo \<Rightarrow>
             if 0xDC00 \<le> lo \<and> lo < 0xE000 then
               map_option (\<lambda>p. (p, drop 6 r)) (utf8 (0x10000 + (hi - 0xD800) * 1024 + (lo - 0xDC00)))
             else None))"

definition scan_unicode :: "string \<Rightarrow> (string \<times> string) option" where
  "scan_unicode r =
     (if length r < 4 then None
      else
        (case hex4 (r ! 0) (r ! 1) (r ! 2) (r ! 3) of
           None \<Rightarrow> None
         | Some cp \<Rightarrow>
             if 0xD800 \<le> cp \<and> cp < 0xDC00 then scan_low cp (drop 4 r)
             else map_option (\<lambda>p. (p, drop 4 r)) (utf8 cp)))"

definition scan_escape :: "string \<Rightarrow> (string \<times> string) option" where
  "scan_escape s =
     (case s of
        [] \<Rightarrow> None
      | e # r \<Rightarrow>
          if e = CHR ''u'' then scan_unicode r
          else map_option (\<lambda>x. ([x], r)) (unescape e))"

text \<open>
  The text after an opening quotation mark, up to the closing one. A control character
  below 0x20 is refused (the scanner is strict).
\<close>

function scan_string :: "string \<Rightarrow> (string \<times> string) option" where
  "scan_string [] = None"
| "scan_string (c # cs) =
     (if c = CHR 0x22 then Some ([], cs)
      else if c = CHR 0x5C then
        (case scan_escape cs of
           None \<Rightarrow> None
         | Some (p, r) \<Rightarrow> map_option (\<lambda>(x, rest). (p @ x, rest)) (scan_string r))
      else if (of_char c :: nat) < 32 then None
      else map_option (\<lambda>(x, rest). (c # x, rest)) (scan_string cs))"
  by pat_completeness auto
termination
proof (relation "measure length")
  fix c :: char and cs :: string and x p r
  assume "scan_escape cs = Some x" and "(p, r) = x"
  then have "scan_escape cs = Some (p, r)" by simp
  then have "length r \<le> length cs"
    by (auto simp add: scan_escape_def scan_unicode_def scan_low_def
        split: list.splits if_splits option.splits)
  then show "(r, c # cs) \<in> measure length" by simp
qed simp_all

text \<open>
  A number: an optional minus sign, then \<^verbatim>\<open>0\<close> or a digit other than zero followed by
  digits. When a fraction (a point and a digit) or an exponent follows, the number is
  a float.
\<close>

fun scan_digits :: "nat \<Rightarrow> string \<Rightarrow> nat \<times> string" where
  "scan_digits acc [] = (acc, [])"
| "scan_digits acc (c # cs) =
     (case digit_val c of None \<Rightarrow> (acc, c # cs) | Some d \<Rightarrow> scan_digits (acc * 10 + d) cs)"

definition scan_nat :: "string \<Rightarrow> (nat \<times> string) option" where
  "scan_nat s =
     (case s of
        [] \<Rightarrow> None
      | c # cs \<Rightarrow>
          (case digit_val c of
             None \<Rightarrow> None
           | Some d \<Rightarrow> if d = 0 then Some (0, cs) else Some (scan_digits d cs)))"

definition is_digit :: "char \<Rightarrow> bool" where
  "is_digit c \<longleftrightarrow> digit_val c \<noteq> None"

definition float_follows :: "string \<Rightarrow> bool" where
  "float_follows r =
     (case r of
        [] \<Rightarrow> False
      | c # cs \<Rightarrow>
          if c = CHR ''.'' then (case cs of [] \<Rightarrow> False | d # _ \<Rightarrow> is_digit d)
          else if c = CHR ''e'' \<or> c = CHR ''E'' then
            (case cs of
               [] \<Rightarrow> False
             | s # ds \<Rightarrow>
                 if s = CHR ''+'' \<or> s = CHR ''-'' then (case ds of [] \<Rightarrow> False | d # _ \<Rightarrow> is_digit d)
                 else is_digit s)
          else False)"

definition scan_number :: "string \<Rightarrow> (int \<times> string) option" where
  "scan_number s =
     (case (case s of
              [] \<Rightarrow> None
            | c # cs \<Rightarrow>
                if c = CHR ''-'' then map_option (\<lambda>(n, r). (- int n, r)) (scan_nat cs)
                else map_option (\<lambda>(n, r). (int n, r)) (scan_nat s)) of
        None \<Rightarrow> None
      | Some (i, r) \<Rightarrow> if float_follows r then None else Some (i, r))"

text \<open>A scalar value, chosen by its first character.\<close>

definition literal :: "string \<Rightarrow> pyval \<Rightarrow> string \<Rightarrow> (pyval \<times> string) option" where
  "literal w v s = (if take (length w) s = w then Some (v, drop (length w) s) else None)"

definition scan_value :: "string \<Rightarrow> (pyval \<times> string) option" where
  "scan_value s =
     (case s of
        [] \<Rightarrow> None
      | c # cs \<Rightarrow>
          if c = CHR 0x22 then map_option (\<lambda>(x, r). (PStr x, r)) (scan_string cs)
          else if c = CHR ''n'' then literal ''ull'' PNone cs
          else if c = CHR ''t'' then literal ''rue'' (PBool True) cs
          else if c = CHR ''f'' then literal ''alse'' (PBool False) cs
          else map_option (\<lambda>(i, r). (PInt i, r)) (scan_number s))"

text \<open>Every scanning function returns a shorter text, so the loops below end.\<close>

lemma scan_escape_shorter: "scan_escape s = Some (p, r) \<Longrightarrow> length r < length s"
  by (auto simp add: scan_escape_def scan_unicode_def scan_low_def
      split: list.splits if_splits option.splits)

lemma scan_string_shorter: "scan_string s = Some (x, r) \<Longrightarrow> length r < length s"
proof (induction s arbitrary: x r rule: scan_string.induct)
  case 1
  then show ?case by simp
next
  case (2 c cs)
  show ?case
  proof (cases "c = CHR 0x22")
    case True
    with "2.prems" show ?thesis by simp
  next
    case q: False
    show ?thesis
    proof (cases "c = CHR 0x5C")
      case True
      with q "2.prems" obtain p r' x' where e: "scan_escape cs = Some (p, r')"
        and s: "scan_string r' = Some (x', r)"
        by (auto split: option.splits)
      from "2.IH"(1) [OF q True e refl s] scan_escape_shorter [OF e] show ?thesis by simp
    next
      case b: False
      with q "2.prems" have c: "\<not> (of_char c :: nat) < 32"
        and "\<exists>x'. scan_string cs = Some (x', r)"
        by (auto split: if_splits)
      then obtain x' where "scan_string cs = Some (x', r)" by blast
      from "2.IH"(2) [OF q b c this] show ?thesis by simp
    qed
  qed
qed

lemma scan_digits_shorter: "scan_digits acc s = (n, r) \<Longrightarrow> length r \<le> length s"
  by (induction acc s rule: scan_digits.induct) (auto split: option.splits)

lemma skip_ws_shorter: "length (skip_ws s) \<le> length s"
  by (simp add: skip_ws_def length_dropWhile_le)

lemma scan_number_shorter: "scan_number s = Some (i, r) \<Longrightarrow> length r < length s"
  by (auto simp add: scan_number_def scan_nat_def le_imp_less_Suc
      split: list.splits if_splits option.splits dest!: scan_digits_shorter)

lemma scan_value_shorter: "scan_value s = Some (v, r) \<Longrightarrow> length r < length s"
  by (auto simp add: scan_value_def literal_def less_Suc_eq_le
      split: list.splits if_splits dest!: scan_string_shorter scan_number_shorter)

text \<open>
  The members of an object, from the quotation mark of the first key to the closing
  brace: a key, a colon, a value, then a comma and the next member, or the brace.
\<close>

function scan_members :: "string \<Rightarrow> ((string \<times> pyval) list \<times> string) option" where
  "scan_members s =
     (case s of
        [] \<Rightarrow> None
      | c # cs \<Rightarrow>
          if c \<noteq> CHR 0x22 then None
          else
            (case scan_string cs of
               None \<Rightarrow> None
             | Some (k, r1) \<Rightarrow>
                 (case skip_ws r1 of
                    [] \<Rightarrow> None
                  | c2 # r2 \<Rightarrow>
                      if c2 \<noteq> CHR '':'' then None
                      else
                        (case scan_value (skip_ws r2) of
                           None \<Rightarrow> None
                         | Some (v, r3) \<Rightarrow>
                             (case skip_ws r3 of
                                [] \<Rightarrow> None
                              | c3 # r4 \<Rightarrow>
                                  if c3 = CHR ''}'' then Some ([(k, v)], r4)
                                  else if c3 = CHR '','' then
                                    map_option (\<lambda>(ms, rest). ((k, v) # ms, rest))
                                      (scan_members (skip_ws r4))
                                  else None)))))"
  by pat_completeness auto
termination
  apply (relation "measure length")
   apply simp
  apply clarsimp
  subgoal premises p for cs k r1 r2 v r3 r4
    using scan_string_shorter [OF p(1)] skip_ws_shorter [of r1] p(2)
      scan_value_shorter [OF p(3)] skip_ws_shorter [of r2] skip_ws_shorter [of r3] p(4)
      skip_ws_shorter [of r4]
    by simp
  done

declare scan_members.simps [simp del]

lemma scan_members_shorter: "scan_members s = Some (ms, r) \<Longrightarrow> length r < length s"
proof (induction s arbitrary: ms r rule: scan_members.induct)
  case (1 s)
  from "1.prems" obtain cs k r1 r2 v r3 c3 r4 where s: "s = CHR 0x22 # cs"
    and k: "scan_string cs = Some (k, r1)" and c: "skip_ws r1 = CHR '':'' # r2"
    and v: "scan_value (skip_ws r2) = Some (v, r3)" and e: "skip_ws r3 = c3 # r4"
    and r: "(c3 = CHR ''}'' \<and> r = r4)
            \<or> (c3 \<noteq> CHR ''}'' \<and> c3 = CHR '','' \<and> (\<exists>ms'. scan_members (skip_ws r4) = Some (ms', r)))"
    by (subst (asm) scan_members.simps) (auto split: list.splits if_splits option.splits)
  have l: "length r4 < length s"
    using scan_string_shorter [OF k] skip_ws_shorter [of r1] c
      scan_value_shorter [OF v] skip_ws_shorter [of r2] skip_ws_shorter [of r3] e s
    by simp
  from r show ?case
  proof
    assume "c3 = CHR ''}'' \<and> r = r4"
    with l show ?thesis by simp
  next
    assume a: "c3 \<noteq> CHR ''}'' \<and> c3 = CHR '','' \<and> (\<exists>ms'. scan_members (skip_ws r4) = Some (ms', r))"
    then obtain ms' where m: "scan_members (skip_ws r4) = Some (ms', r)" by blast
    have "length r < length (skip_ws r4)"
      using "1.IH" [OF s _ k refl c _ v refl e _ _ m] a by simp
    with l skip_ws_shorter [of r4] show ?thesis by simp
  qed
qed

text \<open>The text after an opening brace: an object, as the dictionary of its members.\<close>

definition scan_object :: "string \<Rightarrow> (pydict \<times> string) option" where
  "scan_object s =
     (case skip_ws s of
        [] \<Rightarrow> None
      | c # cs \<Rightarrow>
          if c = CHR ''}'' then Some ([], cs)
          else map_option (\<lambda>(ms, rest). (dict_of_items ms, rest)) (scan_members (c # cs)))"

lemma scan_object_shorter: "scan_object s = Some (d, r) \<Longrightarrow> length r \<le> length s"
proof -
  assume a: "scan_object s = Some (d, r)"
  then obtain c cs where s: "skip_ws s = c # cs"
    by (auto simp add: scan_object_def split: list.splits)
  with a have "r = cs \<or> (\<exists>ms. scan_members (c # cs) = Some (ms, r))"
    by (auto simp add: scan_object_def split: if_splits)
  then have "length r \<le> length (c # cs)"
    by (auto dest!: scan_members_shorter)
  with skip_ws_shorter [of s] s show ?thesis by simp
qed

text \<open>
  The elements of an array, from the brace of the first object to the closing bracket,
  and the text after an opening bracket.
\<close>

function scan_elements :: "string \<Rightarrow> (pydict list \<times> string) option" where
  "scan_elements s =
     (case s of
        [] \<Rightarrow> None
      | c # cs \<Rightarrow>
          if c \<noteq> CHR ''{'' then None
          else
            (case scan_object cs of
               None \<Rightarrow> None
             | Some (d, r1) \<Rightarrow>
                 (case skip_ws r1 of
                    [] \<Rightarrow> None
                  | c2 # r2 \<Rightarrow>
                      if c2 = CHR '']'' then Some ([d], r2)
                      else if c2 = CHR '','' then
                        map_option (\<lambda>(ds, rest). (d # ds, rest)) (scan_elements (skip_ws r2))
                      else None)))"
  by pat_completeness auto
termination
  apply (relation "measure length")
   apply simp
  apply clarsimp
  subgoal premises p for cs d r1 r2
    using scan_object_shorter [OF p(1)] skip_ws_shorter [of r1] p(2) skip_ws_shorter [of r2]
    by simp
  done

declare scan_elements.simps [simp del]

definition scan_array :: "string \<Rightarrow> (pydict list \<times> string) option" where
  "scan_array s =
     (case skip_ws s of
        [] \<Rightarrow> None
      | c # cs \<Rightarrow> if c = CHR '']'' then Some ([], cs) else scan_elements (c # cs))"

text \<open>
  \<^verbatim>\<open>json.load\<close>: whitespace, one value, whitespace, and the end of the text.
\<close>

definition json_load :: "string \<Rightarrow> py_error + pydict list" where
  "json_load s =
     (case skip_ws s of
        [] \<Rightarrow> Inl ValueError
      | c # cs \<Rightarrow>
          if c \<noteq> CHR ''['' then Inl ValueError
          else
            (case scan_array cs of
               None \<Rightarrow> Inl ValueError
             | Some (ns, r) \<Rightarrow> if skip_ws r = [] then Inr ns else Inl ValueError))"

text \<open>The two library functions as the codec of \<open>load_notifications\<close> and \<open>save_notifications\<close>.\<close>

definition json_codec :: "pydict codec" where
  "json_codec = \<lparr>dumps = json_dump, loads = json_load\<rparr>"

section \<open>The poll cycle\<close>

text \<open>
  What one record's processing sees of the outside: the three clock readings, the
  outcome of writing the embedded image to a temporary file (its path, or the exception
  of the decoding or of the file operations), whether \<^verbatim>\<open>root.after\<close> raises, whether
  the \<^verbatim>\<open>print\<close> of the fired title raises (it does when the title cannot be encoded
  for the standard output, or the standard output is closed), which paths exist, and the
  outcome of \<^verbatim>\<open>os.unlink\<close>.
\<close>

record record_env =
  t_now :: datetime
  t_match :: datetime
  t_mark :: datetime
  materialize :: "pyval \<Rightarrow> py_error + string"
  after_res :: "py_error + unit"
  print_res :: "py_error + unit"
  path_exists :: "string \<Rightarrow> bool"
  unlink_res :: "string \<Rightarrow> py_error + unit"

datatype event = Handoff handoff | Unlink string bool

text \<open>
  The body of the \<^verbatim>\<open>for\<close> loop for one record: the record as the body leaves it, the
  events, whether \<open>fired_any\<close> was set, and the exception that left the body, if any.
  The image step and the clean-up have handlers of their own; \<open>should_fire\<close>,
  \<open>send_notification\<close>, \<open>mark_fired\<close> and the \<^verbatim>\<open>print\<close> have none. The record is
  mutated in place, so a record whose \<^verbatim>\<open>print\<close> raises stays marked.
\<close>

definition process_record ::
    "platform \<Rightarrow> record_env \<Rightarrow> notif \<Rightarrow> notif \<times> event list \<times> bool \<times> py_error option" where
  "process_record p e notif =
     (case should_fire (t_now e) (t_match e) notif of
        Inl err \<Rightarrow> (notif, [], False, Some err)
      | Inr False \<Rightarrow> (notif, [], False, None)
      | Inr True \<Rightarrow>
          (let image_path =
                 (if truthy (dict_get notif ''image'' PNone) then
                    (case materialize e (dict_get notif ''image'' PNone) of
                       Inl _ \<Rightarrow> None
                     | Inr temp_path \<Rightarrow> Some temp_path)
                  else None)
           in case send_notification p (after_res e) (dict_get notif ''title'' (PStr []))
                     (dict_get notif ''message'' (PStr [])) image_path of
                Inl err \<Rightarrow> (notif, [], False, Some err)
              | Inr h \<Rightarrow>
                  (let notif' = mark_fired (t_mark e) notif
                   in case print_res e of
                        Inl err \<Rightarrow> (notif', [Handoff h], False, Some err)
                      | Inr _ \<Rightarrow>
                          (let cleanup =
                                 (case image_path of
                                    None \<Rightarrow> []
                                  | Some path \<Rightarrow>
                                      if path \<noteq> [] \<and> path_exists e path
                                      then [Unlink path (returned (unlink_res e path))] else [])
                           in (notif', Handoff h # cleanup, True, None)))))"

text \<open>
  The \<^verbatim>\<open>for\<close> loop over the snapshot, record \<open>i\<close> in the environment \<open>env i\<close>: the
  exception that ended the loop, if any, the outcomes of the records the loop entered,
  and the records it did not reach.
\<close>

fun run_records ::
    "platform \<Rightarrow> (nat \<Rightarrow> record_env) \<Rightarrow> nat \<Rightarrow> notif list
     \<Rightarrow> py_error option \<times> (notif \<times> event list \<times> bool) list \<times> notif list" where
  "run_records p env i [] = (None, [], [])"
| "run_records p env i (n # ns) =
     (case process_record p (env i) n of
        (n', evs, fired, raised) \<Rightarrow>
          (case raised of
             Some err \<Rightarrow> (Some err, [(n', evs, fired)], ns)
           | None \<Rightarrow>
               (case run_records p env (Suc i) ns of
                  (err, outs, rest) \<Rightarrow> (err, (n', evs, fired) # outs, rest))))"

text \<open>
  One iteration of \<^verbatim>\<open>while True\<close> in \<open>check_notifications\<close>, up to the sleep. The marks
  of the records processed stay when an exception ends the loop; the handler around the
  cycle drops the exception, and the save is skipped with it.
\<close>

record cycle =
  notifications :: "notif list"
  events :: "event list"
  files :: filesystem
  dialogs :: "dialog list"
  aborted :: "py_error option"

definition check_cycle ::
    "platform \<Rightarrow> (nat \<Rightarrow> record_env) \<Rightarrow> notif codec \<Rightarrow> writer \<Rightarrow> string \<Rightarrow> filesystem
     \<Rightarrow> notif list \<Rightarrow> cycle" where
  "check_cycle p env cd w base_dir fs ns =
     (case run_records p env 0 ns of
        (err, outs, rest) \<Rightarrow>
          (let ns' = map fst outs @ rest;
               evs = concat (map (\<lambda>out. fst (snd out)) outs);
               fired_any = list_ex (\<lambda>out. snd (snd out)) outs
           in if err = None \<and> fired_any then
                (case save_notifications cd w fs base_dir ns' of
                   (fs', ds) \<Rightarrow>
                     \<lparr>notifications = ns', events = evs, files = fs', dialogs = ds,
                      aborted = None\<rparr>)
              else \<lparr>notifications = ns', events = evs, files = fs, dialogs = [],
                    aborted = err\<rparr>))"

section \<open>Example records and instants\<close>

text \<open>
  The instants: Friday 2024-01-05 at 09:30:12, the same day at 09:31:00, the next day
  at 09:30:40, and Friday of the following week at 09:30:05.
\<close>

definition fri_0930 :: datetime where
  "fri_0930 = \<lparr>year = 2024, month = 1, day = 5, hour = 9, minute = 30, second = 12\<rparr>"

definition fri_0931 :: datetime where
  "fri_0931 = \<lparr>year = 2024, month = 1, day = 5, hour = 9, minute = 31, second = 0\<rparr>"

definition sat_0930 :: datetime where
  "sat_0930 = \<lparr>year = 2024, month = 1, day = 6, hour = 9, minute = 30, second = 40\<rparr>"

definition next_fri_0930 :: datetime where
  "next_fri_0930 = \<lparr>year = 2024, month = 1, day = 12, hour = 9, minute = 30, second = 5\<rparr>"

definition once_rec :: notif where
  "once_rec = [''title'' \<mapsto> PStr ''Dentist'', ''message'' \<mapsto> PStr ''Leave at nine'',
               ''date'' \<mapsto> PStr ''2024-01-05'', ''time'' \<mapsto> PStr ''09:30'',
               ''repeat'' \<mapsto> PStr ''Once'', ''priority'' \<mapsto> PStr ''Normal'',
               ''image'' \<mapsto> PNone, ''delivered'' \<mapsto> PBool False,
               ''last_fired_date'' \<mapsto> PNone, ''last_fired_week'' \<mapsto> PNone,
               ''created_weekday'' \<mapsto> PInt 4]"

definition daily_rec :: notif where
  "daily_rec = once_rec(''title'' \<mapsto> PStr ''Standup'', ''date'' \<mapsto> PStr [],
                        ''repeat'' \<mapsto> PStr ''Daily'')"

definition weekly_rec :: notif where
  "weekly_rec = once_rec(''title'' \<mapsto> PStr ''Review'', ''date'' \<mapsto> PStr [],
                         ''repeat'' \<mapsto> PStr ''Weekly'')"

text \<open>
  A Windows machine with every library present, where the sound plays, both toast
  calls raise, and the generic library and the dialog work.
\<close>

definition toasts_fail :: platform where
  "toasts_fail =
     \<lparr>is_windows = True, os_nt = True, sound_file = True, toaster = True, winotify = True,
      plyer = True, play_sound_res = Inr (), beep_res = Inr (), beep_again_res = Inr (),
      show_toast = (\<lambda>t m. Inl OSError), winotify_show = (\<lambda>t m. Inl OSError),
      plyer_notify = (\<lambda>t m. Inr ()), showinfo = (\<lambda>t m. Inr ())\<rparr>"

text \<open>
  A record with an embedded image, the text \<^verbatim>\<open>json.dump\<close> with \<^verbatim>\<open>indent=2\<close> writes for
  the list holding it, and a codec that knows this one document: it dumps the list to
  the text, loads the text back, and raises on everything else.
\<close>

definition image_rec :: notif where
  "image_rec = [''title'' \<mapsto> PStr ''Dentist'', ''image'' \<mapsto> PStr ''aGk='']"

definition image_rec_text :: string where
  \<open>image_rec_text =
     ''['' @ [CHR 0x0A] @ ''  {'' @ [CHR 0x0A] @ ''    "title": "Dentist",'' @ [CHR 0x0A]
     @ ''    "image": "aGk="'' @ [CHR 0x0A] @ ''  }'' @ [CHR 0x0A] @ '']''\<close>

definition one_document :: "notif list \<Rightarrow> string \<Rightarrow> notif codec" where
  "one_document ns s =
     \<lparr>dumps = (\<lambda>v. if v = ns then Inr s else Inl TypeError),
      loads = (\<lambda>t. if t = s then Inr ns else Inl ValueError)\<rparr>"

text \<open>
  The items of the record with the embedded image, as the form stores them: the image
  is the Base64 text of the two bytes \<^verbatim>\<open>hi\<close>.
\<close>

definition image_items :: pydict where
  "image_items = [(''title'', PStr ''Dentist''), (''image'', PStr (b64encode ''hi''))]"

definition good_writer :: writer where
  "good_writer = \<lparr>open_res = Inr (), write_res = Inr (), partial_text = []\<rparr>"

text \<open>A directory without a stored file, one whose file is not JSON, and one that cannot be read.\<close>

definition no_files :: filesystem where
  "no_files = (\<lambda>path. Missing)"

definition broken_file :: filesystem where
  "broken_file = no_files(storage_path ''C:/notifier'' := Text ''not json'')"

definition locked_file :: filesystem where
  "locked_file = no_files(storage_path ''C:/notifier'' := Unreadable)"

text \<open>
  Environments of a poll on Friday at 09:30:12. In the calm one every external call
  works. In the rough one the image cannot be written, \<^verbatim>\<open>root.after\<close> raises and
  \<^verbatim>\<open>os.unlink\<close> raises. In the third one only the \<^verbatim>\<open>print\<close> raises.
\<close>

definition calm_env :: record_env where
  "calm_env =
     \<lparr>t_now = fri_0930, t_match = fri_0930, t_mark = fri_0930,
      materialize = (\<lambda>v. Inr ''C:/notifier/temp/img_1704447012.png''),
      after_res = Inr (), print_res = Inr (), path_exists = (\<lambda>path. True),
      unlink_res = (\<lambda>path. Inr ())\<rparr>"


definition mute_env :: record_env where
  "mute_env = calm_env\<lparr>print_res := Inl ValueError\<rparr>"

definition calm_envs :: "nat \<Rightarrow> record_env" where
  "calm_envs i = calm_env"


definition mute_envs :: "nat \<Rightarrow> record_env" where
  "mute_envs i = mute_env"


definition null_weekday_rec :: notif where
  "null_weekday_rec = weekly_rec(''created_weekday'' \<mapsto> PNone)"

text \<open>
  A Daily record due at 23:59, the last second of Friday, the first second of Saturday,
  and Saturday at 23:59:10.
\<close>

definition late_daily_rec :: notif where
  "late_daily_rec = daily_rec(''time'' \<mapsto> PStr ''23:59'')"

definition fri_235959 :: datetime where
  "fri_235959 = \<lparr>year = 2024, month = 1, day = 5, hour = 23, minute = 59, second = 59\<rparr>"

definition sat_000000 :: datetime where
  "sat_000000 = \<lparr>year = 2024, month = 1, day = 6, hour = 0, minute = 0, second = 0\<rparr>"

definition sat_235910 :: datetime where
  "sat_235910 = \<lparr>year = 2024, month = 1, day = 6, hour = 23, minute = 59, second = 10\<rparr>"

section \<open>Facts about the library\<close>

lemma digit_val_digit_char: "n < 10 \<Longrightarrow> digit_val (digit_char n) = Some n"
  by (simp add: digit_val_def digit_char_def)

lemma digit_char_eq_iff:
  "a < 10 \<Longrightarrow> b < 10 \<Longrightarrow> digit_char a = digit_char b \<longleftrightarrow> a = b"
  by (metis digit_val_digit_char option.inject)

lemma dec2:
  fixes a :: nat
  assumes "a < 100"
  shows "a = 10 * (a div 10 mod 10) + a mod 10"
proof -
  have "a div 10 mod 10 = a div 10" using assms by simp
  then show ?thesis by simp
qed

lemma dec4:
  fixes a :: nat
  assumes "a < 10000"
  shows "a = 1000 * (a div 1000 mod 10) + 100 * (a div 100 mod 10) + 10 * (a div 10 mod 10)
             + a mod 10"
proof -
  have d2: "a div 10 div 10 = a div 100"
    using div_mult2_eq [of a 10 10] by simp
  have d3: "a div 100 div 10 = a div 1000"
    using div_mult2_eq [of a 100 10] by simp
  have e1: "a = 10 * (a div 10) + a mod 10" by simp
  have e2: "a div 10 = 10 * (a div 100) + a div 10 mod 10"
    using div_mult_mod_eq [of "a div 10" 10] d2 by simp
  have e3: "a div 100 = 10 * (a div 1000) + a div 100 mod 10"
    using div_mult_mod_eq [of "a div 100" 10] d3 by simp
  have e4: "a div 1000 mod 10 = a div 1000"
    using assms by simp
  from e1 e2 e3 e4 show ?thesis by linarith
qed

lemma pad2_inj:
  assumes "a < 100" "b < 100" "pad2 a = pad2 b"
  shows "a = b"
proof -
  have "a div 10 mod 10 = b div 10 mod 10" "a mod 10 = b mod 10"
    using assms(3) by (simp_all add: pad2_def digit_char_eq_iff)
  then show ?thesis
    using dec2 [OF assms(1)] dec2 [OF assms(2)] by simp
qed

lemma pad4_inj:
  assumes "a < 10000" "b < 10000" "pad4 a = pad4 b"
  shows "a = b"
proof -
  have "a div 1000 mod 10 = b div 1000 mod 10" "a div 100 mod 10 = b div 100 mod 10"
    "a div 10 mod 10 = b div 10 mod 10" "a mod 10 = b mod 10"
    using assms(3) by (simp_all add: pad4_def digit_char_eq_iff)
  then show ?thesis
    using dec4 [OF assms(1)] dec4 [OF assms(2)] by simp
qed

lemma days_in_month_le: "days_in_month y m \<le> 31"
  by (simp add: days_in_month_def)

text \<open>On valid instants the printed date, time and minute determine the fields.\<close>

lemma strftime_Ymd_eq_iff:
  assumes "valid_datetime a" "valid_datetime b"
  shows "strftime_Ymd a = strftime_Ymd b \<longleftrightarrow> date_of a = date_of b"
proof
  assume eq: "strftime_Ymd a = strftime_Ymd b"
  have la: "year a < 10000" "month a < 100" "day a < 100"
    using assms(1) days_in_month_le [of "year a" "month a"] by (auto simp: valid_datetime_def)
  have lb: "year b < 10000" "month b < 100" "day b < 100"
    using assms(2) days_in_month_le [of "year b" "month b"] by (auto simp: valid_datetime_def)
  from eq have "pad4 (year a) = pad4 (year b)" "pad2 (month a) = pad2 (month b)"
    "pad2 (day a) = pad2 (day b)"
    by (simp_all add: strftime_Ymd_def pad4_def pad2_def)
  with la lb show "date_of a = date_of b"
    by (simp add: date_of_def pad4_inj pad2_inj)
next
  assume "date_of a = date_of b"
  then show "strftime_Ymd a = strftime_Ymd b"
    by (simp add: date_of_def strftime_Ymd_def)
qed

lemma strftime_HM_eq_iff:
  assumes "valid_datetime a" "valid_datetime b"
  shows "strftime_HM a = strftime_HM b \<longleftrightarrow> hour a = hour b \<and> minute a = minute b"
proof
  assume eq: "strftime_HM a = strftime_HM b"
  have l: "hour a < 100" "minute a < 100" "hour b < 100" "minute b < 100"
    using assms by (auto simp: valid_datetime_def)
  from eq have "pad2 (hour a) = pad2 (hour b)" "pad2 (minute a) = pad2 (minute b)"
    by (simp_all add: strftime_HM_def pad2_def)
  with l show "hour a = hour b \<and> minute a = minute b"
    by (simp add: pad2_inj)
next
  assume "hour a = hour b \<and> minute a = minute b"
  then show "strftime_HM a = strftime_HM b"
    by (simp add: strftime_HM_def)
qed

lemma length_strftime_Ymd: "length (strftime_Ymd dt) = 10"
  by (simp add: strftime_Ymd_def pad4_def pad2_def)

lemma strftime_Ymd_HM_eq_iff:
  assumes "valid_datetime a" "valid_datetime b"
  shows "strftime_Ymd_HM a = strftime_Ymd_HM b \<longleftrightarrow> minute_of a = minute_of b"
proof -
  have "strftime_Ymd_HM a = strftime_Ymd_HM b \<longleftrightarrow>
        strftime_Ymd a = strftime_Ymd b \<and> strftime_HM a = strftime_HM b"
    by (simp add: strftime_Ymd_HM_def length_strftime_Ymd)
  then show ?thesis
    using strftime_Ymd_eq_iff [OF assms] strftime_HM_eq_iff [OF assms]
    by (auto simp: minute_of_def date_of_def)
qed

text \<open>Whatever \<open>strptime\<close> returns has passed the constructor's checks.\<close>

lemma mk_datetime_valid: "mk_datetime Y m d H M = Inr dt \<Longrightarrow> valid_datetime dt"
  by (auto simp: mk_datetime_def Let_def split: if_splits)

lemma strptime_valid: "strptime s = Inr dt \<Longrightarrow> valid_datetime dt"
  by (auto simp: strptime_def split: list.splits if_splits dest: mk_datetime_valid)

section \<open>The scheduling predicate and its fire memory\<close>

lemma dict_get_upd_same: "dict_get (n(k \<mapsto> v)) k d = v"
  by (simp add: dict_get_def)

lemma dict_get_upd_other: "k' \<noteq> k \<Longrightarrow> dict_get (n(k \<mapsto> v)) k' d = dict_get n k' d"
  by (simp add: dict_get_def)

lemma repeat_mark_fired:
  "dict_get (mark_fired t r) ''repeat'' (PStr ''Once'') = dict_get r ''repeat'' (PStr ''Once'')"
  by (simp add: mark_fired_def Let_def dict_get_upd_other)

text \<open>
  Claim C10. \<open>mark_fired\<close> writes one key, the one the repeat mode selects:
  \<open>delivered\<close> for Once, \<open>last_fired_date\<close> for Daily, \<open>last_fired_week\<close> for Weekly.
  Every other key of the record keeps its value (or stays absent), and for any other
  repeat value the record is unchanged.
\<close>

theorem mark_fired_frame:
  "(dict_get r ''repeat'' (PStr ''Once'') = PStr ''Once'' \<longrightarrow>
      mark_fired now r = r(''delivered'' \<mapsto> PBool True)
      \<and> (\<forall>k. k \<noteq> ''delivered'' \<longrightarrow> mark_fired now r k = r k))
   \<and> (dict_get r ''repeat'' (PStr ''Once'') = PStr ''Daily'' \<longrightarrow>
      mark_fired now r = r(''last_fired_date'' \<mapsto> PStr (strftime_Ymd now))
      \<and> (\<forall>k. k \<noteq> ''last_fired_date'' \<longrightarrow> mark_fired now r k = r k))
   \<and> (dict_get r ''repeat'' (PStr ''Once'') = PStr ''Weekly'' \<longrightarrow>
      mark_fired now r = r(''last_fired_week'' \<mapsto> PStr (iso_week_str now))
      \<and> (\<forall>k. k \<noteq> ''last_fired_week'' \<longrightarrow> mark_fired now r k = r k))
   \<and> (dict_get r ''repeat'' (PStr ''Once'') \<notin> {PStr ''Once'', PStr ''Daily'', PStr ''Weekly''} \<longrightarrow>
      mark_fired now r = r)"
  by (simp add: mark_fired_def Let_def)

theorem mark_fired_frame_witness:
  "dict_get once_rec ''repeat'' (PStr ''Once'') = PStr ''Once''
   \<and> mark_fired fri_0930 once_rec ''delivered'' = Some (PBool True)
   \<and> mark_fired fri_0930 once_rec ''title'' = Some (PStr ''Dentist'')
   \<and> mark_fired fri_0930 once_rec ''last_fired_date'' = Some PNone
   \<and> dict_get daily_rec ''repeat'' (PStr ''Once'') = PStr ''Daily''
   \<and> mark_fired fri_0930 daily_rec ''last_fired_date'' = Some (PStr ''2024-01-05'')
   \<and> mark_fired fri_0930 daily_rec ''delivered'' = Some (PBool False)
   \<and> dict_get weekly_rec ''repeat'' (PStr ''Once'') = PStr ''Weekly''
   \<and> mark_fired fri_0930 weekly_rec ''last_fired_week'' = Some (PStr ''2024-W1'')
   \<and> mark_fired fri_0930 weekly_rec ''created_weekday'' = Some (PInt 4)
   \<and> dict_get (once_rec(''repeat'' \<mapsto> PStr ''Monthly'')) ''repeat'' (PStr ''Once'')
        \<notin> {PStr ''Once'', PStr ''Daily'', PStr ''Weekly''}
   \<and> mark_fired fri_0930 (once_rec(''repeat'' \<mapsto> PStr ''Monthly''))
        = once_rec(''repeat'' \<mapsto> PStr ''Monthly'')"
proof -
  have d: "strftime_Ymd fri_0930 = ''2024-01-05''" by code_simp
  have w: "iso_week_str fri_0930 = ''2024-W1''" by code_simp
  have r1: "dict_get once_rec ''repeat'' (PStr ''Once'') = PStr ''Once''"
    by (simp add: once_rec_def dict_get_def)
  have r2: "dict_get daily_rec ''repeat'' (PStr ''Once'') = PStr ''Daily''"
    by (simp add: daily_rec_def dict_get_def)
  have r3: "dict_get weekly_rec ''repeat'' (PStr ''Once'') = PStr ''Weekly''"
    by (simp add: weekly_rec_def dict_get_def)
  have r4: "dict_get (once_rec(''repeat'' \<mapsto> PStr ''Monthly'')) ''repeat'' (PStr ''Once'')
              \<notin> {PStr ''Once'', PStr ''Daily'', PStr ''Weekly''}"
    by (simp add: dict_get_def)
  have v: "once_rec ''title'' = Some (PStr ''Dentist'')" "once_rec ''last_fired_date'' = Some PNone"
    "daily_rec ''delivered'' = Some (PBool False)" "weekly_rec ''created_weekday'' = Some (PInt 4)"
    by (simp_all add: once_rec_def daily_rec_def weekly_rec_def)
  show ?thesis
    using mark_fired_frame [of once_rec fri_0930] mark_fired_frame [of daily_rec fri_0930]
      mark_fired_frame [of weekly_rec fri_0930]
      mark_fired_frame [of "once_rec(''repeat'' \<mapsto> PStr ''Monthly'')" fri_0930]
      r1 r2 r3 r4 v d w
    by simp
qed

text \<open>
  Claim C1. For a record whose repeat is Once, \<open>should_fire\<close> returns true exactly when
  \<open>delivered\<close> is false, \<open>date\<close> is present, the date and the time parse together as
  \<^verbatim>\<open>YYYY-MM-DD HH:MM\<close>, and the instant read lies in the calendar minute that parse
  gives; it returns false at every instant outside that one minute.
\<close>

theorem once_fires_in_due_minute:
  assumes "dict_get r ''repeat'' (PStr ''Once'') = PStr ''Once''" and "valid_datetime now"
  shows "should_fire now now_tm r =
           Inr (\<not> truthy (dict_get r ''delivered'' PNone) \<and> truthy (dict_get r ''date'' PNone) \<and>
                (\<exists>due. strptime (py_str (dict_get r ''date'' PNone) @ '' ''
                                   @ py_str (dict_get r ''time'' (PStr ''00:00''))) = Inr due
                       \<and> minute_of now = minute_of due))"
proof (cases "strptime (py_str (dict_get r ''date'' PNone) @ '' ''
                         @ py_str (dict_get r ''time'' (PStr ''00:00'')))")
  case (Inl e)
  with assms(1) show ?thesis by (simp add: should_fire_def Let_def)
next
  case (Inr due)
  then have "valid_datetime due" by (rule strptime_valid)
  with assms Inr show ?thesis
    by (simp add: should_fire_def Let_def strftime_Ymd_HM_eq_iff)
qed

theorem once_fires_in_due_minute_witness:
  "dict_get once_rec ''repeat'' (PStr ''Once'') = PStr ''Once'' \<and> valid_datetime fri_0930
   \<and> valid_datetime fri_0931
   \<and> strptime ''2024-01-05 09:30''
        = Inr \<lparr>year = 2024, month = 1, day = 5, hour = 9, minute = 30, second = 0\<rparr>
   \<and> should_fire fri_0930 fri_0930 once_rec = Inr True
   \<and> should_fire fri_0931 fri_0931 once_rec = Inr False"
proof -
  have r: "dict_get once_rec ''repeat'' (PStr ''Once'') = PStr ''Once''"
    by (simp add: once_rec_def dict_get_def)
  have v: "valid_datetime fri_0930" "valid_datetime fri_0931"
    by (simp_all add: fri_0930_def fri_0931_def valid_datetime_def days_in_month_def)
  have f: "dict_get once_rec ''delivered'' PNone = PBool False"
    "dict_get once_rec ''date'' PNone = PStr ''2024-01-05''"
    "dict_get once_rec ''time'' (PStr ''00:00'') = PStr ''09:30''"
    by (simp_all add: once_rec_def dict_get_def)
  have p: "strptime ''2024-01-05 09:30''
             = Inr \<lparr>year = 2024, month = 1, day = 5, hour = 9, minute = 30, second = 0\<rparr>"
    by code_simp
  have m: "minute_of fri_0930 = (2024, 1, 5, 9, 30)" "minute_of fri_0931 = (2024, 1, 5, 9, 31)"
    by (simp_all add: minute_of_def fri_0930_def fri_0931_def)
  show ?thesis
    using once_fires_in_due_minute [OF r v(1), of fri_0930]
      once_fires_in_due_minute [OF r v(2), of fri_0931] r v f p m
    by (simp add: minute_of_def)
qed

text \<open>
  Claim C2. Once \<open>mark_fired\<close> has been applied to a record whose repeat is Once,
  \<open>should_fire\<close> is false on it at every instant, and however many polls follow, the
  record never fires again.
\<close>

theorem once_never_refires:
  assumes "dict_get r ''repeat'' (PStr ''Once'') = PStr ''Once''"
  shows "should_fire now now_tm (mark_fired t r) = Inr False \<and> fires (mark_fired t r) cs = 0"
proof -
  let ?m = "mark_fired t r"
  have rep: "dict_get ?m ''repeat'' (PStr ''Once'') = PStr ''Once''"
    using assms by (simp add: repeat_mark_fired)
  have del: "dict_get ?m ''delivered'' PNone = PBool True"
    using assms by (simp add: mark_fired_def Let_def dict_get_upd_same)
  have never: "should_fire a b ?m = Inr False" for a b
    using rep del by (simp add: should_fire_def Let_def)
  have "fires ?m cs = 0"
  proof (induction cs)
    case Nil
    show ?case by simp
  next
    case (Cons c cs)
    obtain a b d where c: "c = (a, b, d)" by (cases c)
    have "poll_record c ?m = (False, ?m)"
      using never [of a b] by (simp add: poll_record_def c)
    with Cons show ?case by simp
  qed
  with never show ?thesis by simp
qed

theorem once_never_refires_witness:
  "dict_get once_rec ''repeat'' (PStr ''Once'') = PStr ''Once''
   \<and> should_fire fri_0930 fri_0930 once_rec = Inr True
   \<and> should_fire fri_0930 fri_0930 (mark_fired fri_0930 once_rec) = Inr False
   \<and> fires (mark_fired fri_0930 once_rec)
        [(fri_0930, fri_0930, fri_0930), (fri_0931, fri_0931, fri_0931)] = 0"
proof -
  have r: "dict_get once_rec ''repeat'' (PStr ''Once'') = PStr ''Once''"
    by (simp add: once_rec_def dict_get_def)
  have f: "dict_get once_rec ''delivered'' PNone = PBool False"
    "dict_get once_rec ''date'' PNone = PStr ''2024-01-05''"
    "dict_get once_rec ''time'' (PStr ''00:00'') = PStr ''09:30''"
    by (simp_all add: once_rec_def dict_get_def)
  have p: "strptime ''2024-01-05 09:30''
             = Inr \<lparr>year = 2024, month = 1, day = 5, hour = 9, minute = 30, second = 0\<rparr>"
    by code_simp
  have s: "strftime_Ymd_HM fri_0930 = ''2024-01-05 09:30''"
    "strftime_Ymd_HM \<lparr>year = 2024, month = 1, day = 5, hour = 9, minute = 30, second = 0\<rparr>
       = ''2024-01-05 09:30''"
    by code_simp+
  have before: "should_fire fri_0930 fri_0930 once_rec = Inr True"
    using r f p s by (simp add: should_fire_def Let_def)
  show ?thesis
    using once_never_refires [OF r, of fri_0930 fri_0930 fri_0930
        "[(fri_0930, fri_0930, fri_0930), (fri_0931, fri_0931, fri_0931)]"] r before
    by simp
qed

section \<open>Repeating records\<close>

lemma strftime_Ymd_cong: "date_of a = date_of b \<Longrightarrow> strftime_Ymd a = strftime_Ymd b"
  by (simp add: date_of_def strftime_Ymd_def)

lemma iso_week_str_cong: "iso_week_of a = iso_week_of b \<Longrightarrow> iso_week_str a = iso_week_str b"
  by (auto simp: iso_week_of_def iso_week_str_def split: prod.splits)

lemma should_fire_daily:
  assumes "dict_get r ''repeat'' (PStr ''Once'') = PStr ''Daily''"
  shows "should_fire now now_tm r =
           Inr (PStr (strftime_HM now_tm) = dict_get r ''time'' (PStr ''00:00'')
                \<and> dict_get r ''last_fired_date'' PNone \<noteq> PStr (strftime_Ymd now))"
  using assms by (simp add: should_fire_def Let_def time_matches_now_def)

lemma mark_fired_daily:
  assumes "dict_get r ''repeat'' (PStr ''Once'') = PStr ''Daily''"
  shows "dict_get (mark_fired t r) ''last_fired_date'' PNone = PStr (strftime_Ymd t)"
    and "dict_get (mark_fired t r) ''time'' d = dict_get r ''time'' d"
  using assms by (simp_all add: mark_fired_def Let_def dict_get_upd_same dict_get_upd_other)

text \<open>A Daily record marked on some day does not fire at any poll of that day.\<close>

lemma daily_marked_quiet:
  assumes "dict_get r ''repeat'' (PStr ''Once'') = PStr ''Daily''"
    and "dict_get r ''last_fired_date'' PNone = PStr (strftime_Ymd t0)"
    and "\<forall>c \<in> set cs. date_of (fst c) = date_of t0"
  shows "fires r cs = 0"
  using assms(3)
proof (induction cs)
  case Nil
  show ?case by simp
next
  case (Cons c cs)
  obtain a b d where c: "c = (a, b, d)" by (cases c)
  from Cons.prems c have "date_of a = date_of t0" by simp
  then have "strftime_Ymd a = strftime_Ymd t0" by (rule strftime_Ymd_cong)
  then have "should_fire a b r = Inr False"
    using assms(1,2) by (simp add: should_fire_daily)
  then have "poll_record c r = (False, r)"
    by (simp add: poll_record_def c)
  with Cons show ?case by simp
qed

lemma daily_at_most_once:
  assumes "dict_get r ''repeat'' (PStr ''Once'') = PStr ''Daily''"
    and "\<forall>c \<in> set cs. date_of (fst c) = d \<and> date_of (snd (snd c)) = d"
  shows "fires r cs \<le> 1"
  using assms
proof (induction cs arbitrary: r)
  case Nil
  show ?case by simp
next
  case (Cons c cs)
  obtain a b m where c: "c = (a, b, m)" by (cases c)
  show ?case
  proof (cases "should_fire a b r = Inr True")
    case True
    let ?r' = "mark_fired m r"
    have rep: "dict_get ?r' ''repeat'' (PStr ''Once'') = PStr ''Daily''"
      using Cons.prems(1) by (simp add: repeat_mark_fired)
    have last: "dict_get ?r' ''last_fired_date'' PNone = PStr (strftime_Ymd m)"
      using Cons.prems(1) by (rule mark_fired_daily)
    have "\<forall>c' \<in> set cs. date_of (fst c') = date_of m"
      using Cons.prems(2) c by simp
    with rep last have "fires ?r' cs = 0" by (rule daily_marked_quiet)
    with True show ?thesis by (simp add: poll_record_def c)
  next
    case False
    then have "poll_record c r = (False, r)"
      by (cases "should_fire a b r") (simp_all add: poll_record_def c)
    moreover have "fires r cs \<le> 1"
      using Cons.IH [of r] Cons.prems by simp
    ultimately show ?thesis by simp
  qed
qed

text \<open>
  What holds of a record whose repeat is Daily: \<open>should_fire\<close> is true exactly when
  the current \<^verbatim>\<open>HH:MM\<close> equals the record's \<open>time\<close> and \<open>last_fired_date\<close> is not
  today's date; with \<open>mark_fired\<close> applied whenever it is true, the record fires at most
  once over any polls of one calendar day; and after a mark written at the instant \<open>t\<close>
  it is true again at \<open>time\<close> on every day other than the day of \<open>t\<close>.
\<close>

theorem daily_fires_once_a_day:
  assumes "dict_get r ''repeat'' (PStr ''Once'') = PStr ''Daily''"
  shows "should_fire now now_tm r =
           Inr (PStr (strftime_HM now_tm) = dict_get r ''time'' (PStr ''00:00'')
                \<and> dict_get r ''last_fired_date'' PNone \<noteq> PStr (strftime_Ymd now))
         \<and> ((\<forall>c \<in> set cs. date_of (fst c) = d \<and> date_of (snd (snd c)) = d) \<longrightarrow> fires r cs \<le> 1)
         \<and> (valid_datetime t \<and> valid_datetime t' \<and> date_of t' \<noteq> date_of t
              \<and> PStr (strftime_HM t') = dict_get r ''time'' (PStr ''00:00'')
            \<longrightarrow> should_fire t' t' (mark_fired t r) = Inr True)"
proof (intro conjI impI)
  show "should_fire now now_tm r =
          Inr (PStr (strftime_HM now_tm) = dict_get r ''time'' (PStr ''00:00'')
               \<and> dict_get r ''last_fired_date'' PNone \<noteq> PStr (strftime_Ymd now))"
    using assms by (rule should_fire_daily)
next
  assume "\<forall>c \<in> set cs. date_of (fst c) = d \<and> date_of (snd (snd c)) = d"
  with assms show "fires r cs \<le> 1" by (rule daily_at_most_once)
next
  assume h: "valid_datetime t \<and> valid_datetime t' \<and> date_of t' \<noteq> date_of t
             \<and> PStr (strftime_HM t') = dict_get r ''time'' (PStr ''00:00'')"
  have rep: "dict_get (mark_fired t r) ''repeat'' (PStr ''Once'') = PStr ''Daily''"
    using assms by (simp add: repeat_mark_fired)
  have "strftime_Ymd t \<noteq> strftime_Ymd t'"
    using h strftime_Ymd_eq_iff [of t t'] by auto
  then show "should_fire t' t' (mark_fired t r) = Inr True"
    using h by (simp add: should_fire_daily [OF rep] mark_fired_daily [OF assms])
qed

theorem daily_fires_once_a_day_witness:
  "dict_get daily_rec ''repeat'' (PStr ''Once'') = PStr ''Daily''
   \<and> should_fire fri_0930 fri_0930 daily_rec = Inr True
   \<and> should_fire fri_0931 fri_0931 daily_rec = Inr False
   \<and> date_of fri_0930 = (2024, 1, 5) \<and> date_of fri_0931 = (2024, 1, 5)
   \<and> fires daily_rec [(fri_0930, fri_0930, fri_0930), (fri_0930, fri_0930, fri_0930),
                       (fri_0931, fri_0931, fri_0931)] \<le> 1
   \<and> valid_datetime fri_0930 \<and> valid_datetime sat_0930 \<and> date_of sat_0930 \<noteq> date_of fri_0930
   \<and> should_fire fri_0930 fri_0930 (mark_fired fri_0930 daily_rec) = Inr False
   \<and> should_fire sat_0930 sat_0930 (mark_fired fri_0930 daily_rec) = Inr True"
proof -
  let ?cs = "[(fri_0930, fri_0930, fri_0930), (fri_0930, fri_0930, fri_0930),
              (fri_0931, fri_0931, fri_0931)]"
  have r: "dict_get daily_rec ''repeat'' (PStr ''Once'') = PStr ''Daily''"
    by (simp add: daily_rec_def dict_get_def)
  have f: "dict_get daily_rec ''time'' (PStr ''00:00'') = PStr ''09:30''"
    "dict_get daily_rec ''last_fired_date'' PNone = PNone"
    by (simp_all add: daily_rec_def once_rec_def dict_get_def)
  have s: "strftime_HM fri_0930 = ''09:30''" "strftime_HM fri_0931 = ''09:31''"
    "strftime_HM sat_0930 = ''09:30''" "strftime_Ymd fri_0930 = ''2024-01-05''"
    by code_simp+
  have v: "valid_datetime fri_0930" "valid_datetime sat_0930"
    by (simp_all add: fri_0930_def sat_0930_def valid_datetime_def days_in_month_def)
  have d: "date_of fri_0930 = (2024, 1, 5)" "date_of fri_0931 = (2024, 1, 5)"
    "date_of sat_0930 = (2024, 1, 6)"
    by (simp_all add: date_of_def fri_0930_def fri_0931_def sat_0930_def)
  have m: "dict_get (mark_fired fri_0930 daily_rec) ''last_fired_date'' PNone
             = PStr ''2024-01-05''"
    "dict_get (mark_fired fri_0930 daily_rec) ''repeat'' (PStr ''Once'') = PStr ''Daily''"
    using r s by (simp_all add: mark_fired_def Let_def dict_get_upd_same dict_get_upd_other)
  have a: "\<forall>c \<in> set ?cs. date_of (fst c) = (2024, 1, 5) \<and> date_of (snd (snd c)) = (2024, 1, 5)"
    using d by simp
  have t1: "should_fire fri_0930 fri_0930 daily_rec = Inr True"
    using daily_fires_once_a_day [OF r, of fri_0930 fri_0930] f s by simp
  have t2: "should_fire fri_0931 fri_0931 daily_rec = Inr False"
    using daily_fires_once_a_day [OF r, of fri_0931 fri_0931] f s by simp
  have t3: "fires daily_rec ?cs \<le> 1"
    using daily_fires_once_a_day [OF r, of _ _ ?cs "(2024, 1, 5)"] a by blast
  have t4: "should_fire fri_0930 fri_0930 (mark_fired fri_0930 daily_rec) = Inr False"
    using daily_fires_once_a_day [OF m(2), of fri_0930 fri_0930] m(1) s by simp
  have t5: "should_fire sat_0930 sat_0930 (mark_fired fri_0930 daily_rec) = Inr True"
    using daily_fires_once_a_day [OF r, of _ _ _ _ fri_0930 sat_0930] f s v d by simp
  from r t1 t2 t3 v d t4 t5 show ?thesis by simp
qed

text \<open>
  Claim C3. The first half of the claim is the first conjunct above, and a Daily record
  fires at most once over the polls of one calendar day. But \<open>mark_fired\<close> reads the
  clock again, after the delivery: when midnight passes between the predicate and the
  mark, the mark holds the date of the day after the fire. The record below is due at
  23:59; it fires on Friday at 23:59:59, is marked on Saturday at 00:00:00, and is then
  false on Saturday at 23:59: it does not become true again on the next day.
\<close>

theorem daily_mark_after_midnight_skips_next_day:
  "should_fire fri_235959 fri_235959 late_daily_rec = Inr True
   \<and> poll_record (fri_235959, fri_235959, sat_000000) late_daily_rec
       = (True, mark_fired sat_000000 late_daily_rec)
   \<and> mark_fired sat_000000 late_daily_rec ''last_fired_date'' = Some (PStr ''2024-01-06'')
   \<and> strftime_HM sat_235910 = ''23:59''
   \<and> should_fire sat_235910 sat_235910 (mark_fired sat_000000 late_daily_rec) = Inr False
   \<and> fires late_daily_rec [(fri_235959, fri_235959, sat_000000),
                            (sat_235910, sat_235910, sat_235910)] = 1"
proof -
  let ?m = "mark_fired sat_000000 late_daily_rec"
  have r: "dict_get late_daily_rec ''repeat'' (PStr ''Once'') = PStr ''Daily''"
    by (simp add: late_daily_rec_def daily_rec_def dict_get_def)
  have f: "dict_get late_daily_rec ''time'' (PStr ''00:00'') = PStr ''23:59''"
    "dict_get late_daily_rec ''last_fired_date'' PNone = PNone"
    by (simp_all add: late_daily_rec_def daily_rec_def once_rec_def dict_get_def)
  have s: "strftime_HM fri_235959 = ''23:59''" "strftime_HM sat_235910 = ''23:59''"
    "strftime_Ymd sat_000000 = ''2024-01-06''" "strftime_Ymd sat_235910 = ''2024-01-06''"
    by code_simp+
  have m: "?m = late_daily_rec(''last_fired_date'' \<mapsto> PStr ''2024-01-06'')"
    using r s by (simp add: mark_fired_def Let_def)
  have rm: "dict_get ?m ''repeat'' (PStr ''Once'') = PStr ''Daily''"
    using r by (simp add: repeat_mark_fired)
  have fm: "dict_get ?m ''time'' (PStr ''00:00'') = PStr ''23:59''"
    "dict_get ?m ''last_fired_date'' PNone = PStr ''2024-01-06''"
    using f by (simp_all add: m dict_get_upd_same dict_get_upd_other)
  have t1: "should_fire fri_235959 fri_235959 late_daily_rec = Inr True"
    using f s by (simp add: should_fire_daily [OF r])
  have t2: "should_fire sat_235910 sat_235910 ?m = Inr False"
    using fm s by (simp add: should_fire_daily [OF rm])
  have p1: "poll_record (fri_235959, fri_235959, sat_000000) late_daily_rec = (True, ?m)"
    using t1 by (simp add: poll_record_def)
  have p2: "poll_record (sat_235910, sat_235910, sat_235910) ?m = (False, ?m)"
    using t2 by (simp add: poll_record_def)
  have t3: "fires late_daily_rec [(fri_235959, fri_235959, sat_000000),
                                  (sat_235910, sat_235910, sat_235910)] = 1"
    by (simp add: p1 p2)
  have t4: "?m ''last_fired_date'' = Some (PStr ''2024-01-06'')"
    by (simp add: m)
  from t1 p1 t4 s(2) t2 t3 show ?thesis by simp
qed

lemma should_fire_weekly:
  assumes "dict_get r ''repeat'' (PStr ''Once'') = PStr ''Weekly''"
  shows "should_fire now now_tm r =
           (case py_int (dict_get r ''created_weekday'' (PInt (weekday now))) of
              Inl e \<Rightarrow> Inl e
            | Inr w \<Rightarrow>
                Inr (weekday now = w
                     \<and> PStr (strftime_HM now_tm) = dict_get r ''time'' (PStr ''00:00'')
                     \<and> dict_get r ''last_fired_week'' PNone \<noteq> PStr (iso_week_str now)))"
  using assms by (simp add: should_fire_def Let_def time_matches_now_def split: sum.splits)

lemma mark_fired_weekly:
  assumes "dict_get r ''repeat'' (PStr ''Once'') = PStr ''Weekly''"
  shows "dict_get (mark_fired t r) ''last_fired_week'' PNone = PStr (iso_week_str t)"
  using assms by (simp add: mark_fired_def Let_def dict_get_upd_same)

text \<open>A Weekly record marked in some ISO week does not fire at any poll of that week.\<close>

lemma weekly_marked_quiet:
  assumes "dict_get r ''repeat'' (PStr ''Once'') = PStr ''Weekly''"
    and "dict_get r ''last_fired_week'' PNone = PStr (iso_week_str t0)"
    and "\<forall>c \<in> set cs. iso_week_of (fst c) = iso_week_of t0"
  shows "fires r cs = 0"
  using assms(3)
proof (induction cs)
  case Nil
  show ?case by simp
next
  case (Cons c cs)
  obtain a b d where c: "c = (a, b, d)" by (cases c)
  from Cons.prems c have "iso_week_of a = iso_week_of t0" by simp
  then have "iso_week_str a = iso_week_str t0" by (rule iso_week_str_cong)
  then have "should_fire a b r \<noteq> Inr True"
    using assms(1,2) by (simp add: should_fire_weekly split: sum.splits)
  then have "poll_record c r = (False, r)"
    by (cases "should_fire a b r") (simp_all add: poll_record_def c)
  with Cons show ?case by simp
qed

lemma weekly_at_most_once:
  assumes "dict_get r ''repeat'' (PStr ''Once'') = PStr ''Weekly''"
    and "\<forall>c \<in> set cs. iso_week_of (fst c) = wk \<and> iso_week_of (snd (snd c)) = wk"
  shows "fires r cs \<le> 1"
  using assms
proof (induction cs arbitrary: r)
  case Nil
  show ?case by simp
next
  case (Cons c cs)
  obtain a b m where c: "c = (a, b, m)" by (cases c)
  show ?case
  proof (cases "should_fire a b r = Inr True")
    case True
    let ?r' = "mark_fired m r"
    have rep: "dict_get ?r' ''repeat'' (PStr ''Once'') = PStr ''Weekly''"
      using Cons.prems(1) by (simp add: repeat_mark_fired)
    have last: "dict_get ?r' ''last_fired_week'' PNone = PStr (iso_week_str m)"
      using Cons.prems(1) by (rule mark_fired_weekly)
    have "\<forall>c' \<in> set cs. iso_week_of (fst c') = iso_week_of m"
      using Cons.prems(2) c by simp
    with rep last have "fires ?r' cs = 0" by (rule weekly_marked_quiet)
    with True show ?thesis by (simp add: poll_record_def c)
  next
    case False
    then have "poll_record c r = (False, r)"
      by (cases "should_fire a b r") (simp_all add: poll_record_def c)
    moreover have "fires r cs \<le> 1"
      using Cons.IH [of r] Cons.prems by simp
    ultimately show ?thesis by simp
  qed
qed

text \<open>
  Claim C4. For a record whose repeat is Weekly, \<open>should_fire\<close> returns true exactly when
  today's weekday equals the record's \<open>created_weekday\<close> (as \<^verbatim>\<open>int\<close> reads it; today's
  weekday when the field is missing), the current \<^verbatim>\<open>HH:MM\<close> equals \<open>time\<close>, and
  \<open>last_fired_week\<close> is not the current ISO year and week printed as \<^verbatim>\<open>{year}-W{week}\<close>.
  With \<open>mark_fired\<close> applied whenever it is true, the record fires at most once over any
  polls of one ISO week, and on a day with another weekday it is false.
\<close>

theorem weekly_fires_once_a_week:
  assumes "dict_get r ''repeat'' (PStr ''Once'') = PStr ''Weekly''"
  shows "(should_fire now now_tm r = Inr True \<longleftrightarrow>
            py_int (dict_get r ''created_weekday'' (PInt (weekday now))) = Inr (weekday now)
            \<and> PStr (strftime_HM now_tm) = dict_get r ''time'' (PStr ''00:00'')
            \<and> dict_get r ''last_fired_week'' PNone \<noteq> PStr (iso_week_str now))
         \<and> ((\<forall>c \<in> set cs. iso_week_of (fst c) = wk \<and> iso_week_of (snd (snd c)) = wk)
              \<longrightarrow> fires r cs \<le> 1)
         \<and> (r ''created_weekday'' = Some (PInt w) \<and> weekday now \<noteq> w
              \<longrightarrow> should_fire now now_tm r = Inr False)"
proof (intro conjI impI)
  show "should_fire now now_tm r = Inr True \<longleftrightarrow>
          py_int (dict_get r ''created_weekday'' (PInt (weekday now))) = Inr (weekday now)
          \<and> PStr (strftime_HM now_tm) = dict_get r ''time'' (PStr ''00:00'')
          \<and> dict_get r ''last_fired_week'' PNone \<noteq> PStr (iso_week_str now)"
    by (cases "py_int (dict_get r ''created_weekday'' (PInt (weekday now)))")
       (auto simp: should_fire_weekly [OF assms])
next
  assume "\<forall>c \<in> set cs. iso_week_of (fst c) = wk \<and> iso_week_of (snd (snd c)) = wk"
  with assms show "fires r cs \<le> 1" by (rule weekly_at_most_once)
next
  assume "r ''created_weekday'' = Some (PInt w) \<and> weekday now \<noteq> w"
  then show "should_fire now now_tm r = Inr False"
    by (simp add: should_fire_weekly [OF assms] dict_get_def)
qed

theorem weekly_fires_once_a_week_witness:
  "dict_get weekly_rec ''repeat'' (PStr ''Once'') = PStr ''Weekly''
   \<and> weekday fri_0930 = 4 \<and> weekday sat_0930 = 5
   \<and> weekly_rec ''created_weekday'' = Some (PInt 4)
   \<and> should_fire fri_0930 fri_0930 weekly_rec = Inr True
   \<and> should_fire sat_0930 sat_0930 weekly_rec = Inr False
   \<and> iso_week_of fri_0930 = (2024, 1) \<and> iso_week_of sat_0930 = (2024, 1)
   \<and> fires weekly_rec [(fri_0930, fri_0930, fri_0930), (fri_0930, fri_0930, fri_0930),
                        (sat_0930, sat_0930, sat_0930)] \<le> 1
   \<and> should_fire fri_0930 fri_0930 (mark_fired fri_0930 weekly_rec) \<noteq> Inr True
   \<and> should_fire next_fri_0930 next_fri_0930 (mark_fired fri_0930 weekly_rec) = Inr True"
proof -
  let ?cs = "[(fri_0930, fri_0930, fri_0930), (fri_0930, fri_0930, fri_0930),
              (sat_0930, sat_0930, sat_0930)]"
  let ?m = "mark_fired fri_0930 weekly_rec"
  have r: "dict_get weekly_rec ''repeat'' (PStr ''Once'') = PStr ''Weekly''"
    by (simp add: weekly_rec_def dict_get_def)
  have f: "dict_get weekly_rec ''time'' (PStr ''00:00'') = PStr ''09:30''"
    "dict_get weekly_rec ''last_fired_week'' PNone = PNone"
    "weekly_rec ''created_weekday'' = Some (PInt 4)"
    "dict_get weekly_rec ''created_weekday'' d = PInt 4" for d
    by (simp_all add: weekly_rec_def once_rec_def dict_get_def)
  have wd: "weekday fri_0930 = 4" "weekday sat_0930 = 5" "weekday next_fri_0930 = 4"
    by code_simp+
  have s: "strftime_HM fri_0930 = ''09:30''" "strftime_HM sat_0930 = ''09:30''"
    "strftime_HM next_fri_0930 = ''09:30''"
    by code_simp+
  have k: "iso_week_str fri_0930 = ''2024-W1''" "iso_week_str next_fri_0930 = ''2024-W2''"
    by code_simp+
  have i: "iso_week_of fri_0930 = (2024, 1)" "iso_week_of sat_0930 = (2024, 1)"
    by code_simp+
  have m: "dict_get ?m ''repeat'' (PStr ''Once'') = PStr ''Weekly''"
    "dict_get ?m ''last_fired_week'' PNone = PStr ''2024-W1''"
    "dict_get ?m ''time'' (PStr ''00:00'') = PStr ''09:30''"
    "dict_get ?m ''created_weekday'' d = PInt 4" for d
    using r f k by (simp_all add: mark_fired_def Let_def dict_get_upd_same dict_get_upd_other)
  have a: "\<forall>c \<in> set ?cs. iso_week_of (fst c) = (2024, 1) \<and> iso_week_of (snd (snd c)) = (2024, 1)"
    using i by simp
  have t1: "should_fire fri_0930 fri_0930 weekly_rec = Inr True"
    using weekly_fires_once_a_week [OF r, of fri_0930 fri_0930] f wd s by simp
  have t2: "should_fire sat_0930 sat_0930 weekly_rec = Inr False"
    using weekly_fires_once_a_week [OF r, where now = sat_0930 and now_tm = sat_0930 and w = 4] f wd by simp
  have t3: "fires weekly_rec ?cs \<le> 1"
    using weekly_fires_once_a_week [OF r, where cs = ?cs and wk = "(2024, 1)"] a by blast
  have t4: "should_fire fri_0930 fri_0930 ?m \<noteq> Inr True"
    using weekly_fires_once_a_week [OF m(1), of fri_0930 fri_0930] m k by simp
  have t5: "should_fire next_fri_0930 next_fri_0930 ?m = Inr True"
    using weekly_fires_once_a_week [OF m(1), of next_fri_0930 next_fri_0930] m wd s k by simp
  from r wd f t1 t2 i t3 t4 t5 show ?thesis by simp
qed

section \<open>Totality of the predicate\<close>

text \<open>
  Claim C9, as stated, fails: a Weekly record whose \<open>created_weekday\<close> is present and is
  \<^verbatim>\<open>None\<close> makes \<^verbatim>\<open>int(...)\<close> raise TypeError, and \<open>should_fire\<close> does not catch it.
\<close>

theorem should_fire_raises_on_null_weekday:
  "should_fire fri_0930 fri_0930 (weekly_rec(''created_weekday'' \<mapsto> PNone)) = Inl TypeError"
  by (simp add: should_fire_def Let_def dict_get_def weekly_rec_def)

text \<open>
  Claim C9, amended. \<open>should_fire\<close> returns a boolean, raising nothing, for every record
  whose repeat is not Weekly, and for every Weekly record whose \<open>created_weekday\<close> is
  missing or is a value that \<^verbatim>\<open>int\<close> converts. Missing \<open>repeat\<close>, \<open>time\<close>, \<open>date\<close>,
  \<open>delivered\<close>, \<open>last_fired_date\<close> and \<open>last_fired_week\<close> fields are defaulted; a Once
  record whose date is missing, empty or does not parse gives false, and so does a repeat
  value other than Once, Daily and Weekly.
\<close>

theorem should_fire_total:
  "((dict_get r ''repeat'' (PStr ''Once'') \<noteq> PStr ''Weekly''
      \<or> r ''created_weekday'' = None
      \<or> (\<exists>w. py_int (dict_get r ''created_weekday'' (PInt (weekday now))) = Inr w))
     \<longrightarrow> (\<exists>b. should_fire now now_tm r = Inr b))
   \<and> (dict_get r ''repeat'' (PStr ''Once'') = PStr ''Once''
        \<and> (\<not> truthy (dict_get r ''date'' PNone)
            \<or> (\<exists>e. strptime (py_str (dict_get r ''date'' PNone) @ '' ''
                               @ py_str (dict_get r ''time'' (PStr ''00:00''))) = Inl e))
      \<longrightarrow> should_fire now now_tm r = Inr False)
   \<and> (dict_get r ''repeat'' (PStr ''Once'') \<notin> {PStr ''Once'', PStr ''Daily'', PStr ''Weekly''}
      \<longrightarrow> should_fire now now_tm r = Inr False)"
proof (intro conjI impI)
  assume h: "dict_get r ''repeat'' (PStr ''Once'') \<noteq> PStr ''Weekly''
             \<or> r ''created_weekday'' = None
             \<or> (\<exists>w. py_int (dict_get r ''created_weekday'' (PInt (weekday now))) = Inr w)"
  show "\<exists>b. should_fire now now_tm r = Inr b"
  proof (cases "dict_get r ''repeat'' (PStr ''Once'') = PStr ''Weekly''")
    case False
    then show ?thesis
      by (auto simp: should_fire_def Let_def split: sum.splits)
  next
    case True
    with h have "\<exists>w. py_int (dict_get r ''created_weekday'' (PInt (weekday now))) = Inr w"
      by (auto simp: dict_get_def)
    then show ?thesis
      by (auto simp: should_fire_weekly [OF True])
  qed
next
  assume "dict_get r ''repeat'' (PStr ''Once'') = PStr ''Once''
          \<and> (\<not> truthy (dict_get r ''date'' PNone)
              \<or> (\<exists>e. strptime (py_str (dict_get r ''date'' PNone) @ '' ''
                                 @ py_str (dict_get r ''time'' (PStr ''00:00''))) = Inl e))"
  then show "should_fire now now_tm r = Inr False"
    by (auto simp: should_fire_def Let_def)
next
  assume "dict_get r ''repeat'' (PStr ''Once'') \<notin> {PStr ''Once'', PStr ''Daily'', PStr ''Weekly''}"
  then show "should_fire now now_tm r = Inr False"
    by (simp add: should_fire_def Let_def)
qed

theorem should_fire_total_witness:
  "(\<exists>b. should_fire fri_0930 fri_0930 Map.empty = Inr b)
   \<and> (\<exists>b. should_fire fri_0930 fri_0930 [''repeat'' \<mapsto> PStr ''Weekly''] = Inr b)
   \<and> py_int (PStr ''4'') = Inr 4
   \<and> (\<exists>b. should_fire fri_0930 fri_0930
              [''repeat'' \<mapsto> PStr ''Weekly'', ''created_weekday'' \<mapsto> PStr ''4''] = Inr b)
   \<and> should_fire fri_0930 fri_0930 Map.empty = Inr False
   \<and> strptime ''tomorrow 09:30'' = Inl ValueError
   \<and> should_fire fri_0930 fri_0930 (once_rec(''date'' \<mapsto> PStr ''tomorrow'')) = Inr False
   \<and> should_fire fri_0930 fri_0930 (once_rec(''repeat'' \<mapsto> PStr ''Monthly'')) = Inr False"
proof -
  let ?w1 = "[''repeat'' \<mapsto> PStr ''Weekly'']"
  let ?w2 = "[''repeat'' \<mapsto> PStr ''Weekly'', ''created_weekday'' \<mapsto> PStr ''4'']"
  let ?bad = "once_rec(''date'' \<mapsto> PStr ''tomorrow'')"
  let ?monthly = "once_rec(''repeat'' \<mapsto> PStr ''Monthly'')"
  have i: "py_int (PStr ''4'') = Inr 4" by code_simp
  have p: "strptime ''tomorrow 09:30'' = Inl ValueError" by code_simp
  have e: "dict_get Map.empty ''repeat'' (PStr ''Once'') = PStr ''Once''"
    "\<not> truthy (dict_get Map.empty ''date'' PNone)"
    by (simp_all add: dict_get_def)
  have w1: "?w1 ''created_weekday'' = None" by simp
  have w2: "dict_get ?w2 ''created_weekday'' d = PStr ''4''" for d
    by (simp add: dict_get_def)
  have b: "dict_get ?bad ''repeat'' (PStr ''Once'') = PStr ''Once''"
    "dict_get ?bad ''date'' PNone = PStr ''tomorrow''"
    "dict_get ?bad ''time'' (PStr ''00:00'') = PStr ''09:30''"
    by (simp_all add: once_rec_def dict_get_def)
  have mo: "dict_get ?monthly ''repeat'' (PStr ''Once'')
              \<notin> {PStr ''Once'', PStr ''Daily'', PStr ''Weekly''}"
    by (simp add: dict_get_def)
  have t1: "\<exists>b. should_fire fri_0930 fri_0930 Map.empty = Inr b"
    using should_fire_total [of Map.empty fri_0930 fri_0930] e by blast
  have t2: "\<exists>b. should_fire fri_0930 fri_0930 ?w1 = Inr b"
    using should_fire_total [of ?w1 fri_0930 fri_0930] w1 by blast
  have t3: "\<exists>b. should_fire fri_0930 fri_0930 ?w2 = Inr b"
    using should_fire_total [of ?w2 fri_0930 fri_0930] w2 [of "PInt (weekday fri_0930)"] i
    by auto
  have t4: "should_fire fri_0930 fri_0930 Map.empty = Inr False"
    using should_fire_total [of Map.empty fri_0930 fri_0930] e by blast
  have t5: "should_fire fri_0930 fri_0930 ?bad = Inr False"
    using should_fire_total [of ?bad fri_0930 fri_0930] b p by auto
  have t6: "should_fire fri_0930 fri_0930 ?monthly = Inr False"
    using should_fire_total [of ?monthly fri_0930 fri_0930] mo by blast
  from t1 t2 i t3 t4 p t5 t6 show ?thesis by blast
qed

section \<open>Delivery\<close>

lemma all_mechanisms:
  "(\<forall>m. P m) \<longleftrightarrow> P Sound \<and> P PrimaryToast \<and> P SecondaryToast \<and> P GenericLibrary \<and> P ModalDialog"
  by (metis mechanism.exhaust)

text \<open>
  Which attempts the returned trace holds: a mechanism is in it exactly when its guard
  holds and no mechanism before it, the sound apart, has both its guard and a call that
  returns; and it is recorded with the outcome of its own call.
\<close>

lemma deliver_membership:
  assumes "deliver_notification p title message image_path = Inr tr"
  shows "(m, ok) \<in> set tr \<longleftrightarrow>
           available p m \<and> ok = call_ok p title message m
           \<and> (\<forall>m'. m' \<noteq> Sound \<and> mech_rank m' < mech_rank m \<and> available p m'
                    \<longrightarrow> \<not> call_ok p title message m')"
proof (cases m)
  case Sound
  with assms show ?thesis
    by (auto simp: deliver_notification_def attempt_def returns_from_def Let_def all_mechanisms
        split: if_splits)
next
  case PrimaryToast
  with assms show ?thesis
    by (auto simp: deliver_notification_def attempt_def returns_from_def Let_def all_mechanisms
        split: if_splits)
next
  case SecondaryToast
  with assms show ?thesis
    by (auto simp: deliver_notification_def attempt_def returns_from_def Let_def all_mechanisms
        split: if_splits)
next
  case GenericLibrary
  with assms show ?thesis
    by (auto simp: deliver_notification_def attempt_def returns_from_def Let_def all_mechanisms
        split: if_splits)
next
  case ModalDialog
  with assms show ?thesis
    by (auto simp: deliver_notification_def attempt_def returns_from_def Let_def all_mechanisms
        split: if_splits)
qed

lemma deliver_shape:
  "\<exists>tr. deliver_notification p title message image_path = Inr tr
        \<and> tr \<noteq> [] \<and> fst (hd tr) = Sound
        \<and> sorted_wrt (<) (map (\<lambda>a. mech_rank (fst a)) tr)
        \<and> (\<forall>a \<in> set (butlast (tl tr)). \<not> snd a)
        \<and> tl tr \<noteq> [] \<and> (snd (last tr) \<or> fst (last tr) = ModalDialog)"
  by (auto simp: deliver_notification_def attempt_def returns_from_def Let_def)

text \<open>
  Claim C8. \<open>deliver_notification\<close> never lets an exception out. It starts with the
  sound, and then tries primary toast, secondary toast, generic library and modal dialog
  in this order, each at most once. A mechanism is invoked exactly when the platform
  offers it and no mechanism before it has succeeded (the sound apart, which stops
  nothing), and its failure is swallowed: every attempt before the last one has failed,
  and dispatch stops only at a success or after the dialog.
\<close>

theorem deliver_dispatch_order:
  "\<exists>tr. deliver_notification p title message image_path = Inr tr
        \<and> tr \<noteq> [] \<and> fst (hd tr) = Sound
        \<and> sorted_wrt (<) (map (\<lambda>a. mech_rank (fst a)) tr)
        \<and> (\<forall>a \<in> set (butlast (tl tr)). \<not> snd a)
        \<and> tl tr \<noteq> [] \<and> (snd (last tr) \<or> fst (last tr) = ModalDialog)
        \<and> (\<forall>m ok. (m, ok) \<in> set tr \<longleftrightarrow>
              available p m \<and> ok = call_ok p title message m
              \<and> (\<forall>m'. m' \<noteq> Sound \<and> mech_rank m' < mech_rank m \<and> available p m'
                       \<longrightarrow> \<not> call_ok p title message m'))"
proof -
  obtain tr where tr: "deliver_notification p title message image_path = Inr tr"
    and shape: "tr \<noteq> []" "fst (hd tr) = Sound"
      "sorted_wrt (<) (map (\<lambda>a. mech_rank (fst a)) tr)"
      "\<forall>a \<in> set (butlast (tl tr)). \<not> snd a"
      "tl tr \<noteq> []" "snd (last tr) \<or> fst (last tr) = ModalDialog"
    using deliver_shape [of p title message image_path] by blast
  have "\<forall>m ok. (m, ok) \<in> set tr \<longleftrightarrow>
          available p m \<and> ok = call_ok p title message m
          \<and> (\<forall>m'. m' \<noteq> Sound \<and> mech_rank m' < mech_rank m \<and> available p m'
                   \<longrightarrow> \<not> call_ok p title message m')"
    using deliver_membership [OF tr] by blast
  with tr shape show ?thesis by blast
qed

theorem deliver_dispatch_order_witness:
  "deliver_notification toasts_fail (PStr ''Standup'') (PStr ''Now'') None
     = Inr [(Sound, True), (PrimaryToast, False), (SecondaryToast, False), (GenericLibrary, True)]
   \<and> sorted_wrt (<) (map (\<lambda>a. mech_rank (fst a))
         [(Sound, True), (PrimaryToast, False), (SecondaryToast, False), (GenericLibrary, True)])
   \<and> butlast (tl [(Sound, True), (PrimaryToast, False), (SecondaryToast, False),
                    (GenericLibrary, True)])
     = [(PrimaryToast, False), (SecondaryToast, False)]
   \<and> available toasts_fail PrimaryToast \<and> \<not> call_ok toasts_fail (PStr ''Standup'') (PStr ''Now'') PrimaryToast
   \<and> available toasts_fail SecondaryToast \<and> \<not> call_ok toasts_fail (PStr ''Standup'') (PStr ''Now'') SecondaryToast
   \<and> available toasts_fail GenericLibrary \<and> call_ok toasts_fail (PStr ''Standup'') (PStr ''Now'') GenericLibrary
   \<and> (GenericLibrary, True) \<in> set [(Sound, True), (PrimaryToast, False), (SecondaryToast, False),
                                      (GenericLibrary, True)]
   \<and> (ModalDialog, True) \<notin> set [(Sound, True), (PrimaryToast, False), (SecondaryToast, False),
                                   (GenericLibrary, True)]"
proof -
  have d: "deliver_notification toasts_fail (PStr ''Standup'') (PStr ''Now'') None
             = Inr [(Sound, True), (PrimaryToast, False), (SecondaryToast, False),
                    (GenericLibrary, True)]"
    by (simp add: deliver_notification_def attempt_def returns_from_def returned_def
        play_sound_def toasts_fail_def)
  have a: "available toasts_fail PrimaryToast" "available toasts_fail SecondaryToast"
    "available toasts_fail GenericLibrary"
    "\<not> call_ok toasts_fail (PStr ''Standup'') (PStr ''Now'') PrimaryToast"
    "\<not> call_ok toasts_fail (PStr ''Standup'') (PStr ''Now'') SecondaryToast"
    "call_ok toasts_fail (PStr ''Standup'') (PStr ''Now'') GenericLibrary"
    by (simp_all add: toasts_fail_def returned_def)
  show ?thesis
    using deliver_dispatch_order [of toasts_fail "PStr ''Standup''" "PStr ''Now''" None] d a
    by simp
qed

section \<open>Persistence\<close>

text \<open>
  Claim C6. \<open>load_notifications\<close> returns the empty list and shows nothing when there is
  no file at the storage path; when the file is there but cannot be read, or its text
  cannot be parsed, it shows a warning and returns the empty list. No case raises.
\<close>

theorem load_without_usable_file:
  "(fs (storage_path base_dir) = Missing \<longrightarrow> load_notifications cd fs base_dir = ([], []))
   \<and> (fs (storage_path base_dir) = Unreadable
        \<longrightarrow> load_notifications cd fs base_dir = ([], [ShowWarning ''Load'']))
   \<and> (\<forall>s e. fs (storage_path base_dir) = Text s \<and> loads cd s = Inl e
        \<longrightarrow> load_notifications cd fs base_dir = ([], [ShowWarning ''Load'']))"
  by (simp add: load_notifications_def Let_def)

theorem load_without_usable_file_witness:
  "no_files (storage_path ''C:/notifier'') = Missing
   \<and> load_notifications (one_document [image_rec] image_rec_text) no_files ''C:/notifier''
        = ([], [])
   \<and> locked_file (storage_path ''C:/notifier'') = Unreadable
   \<and> load_notifications (one_document [image_rec] image_rec_text) locked_file ''C:/notifier''
        = ([], [ShowWarning ''Load''])
   \<and> broken_file (storage_path ''C:/notifier'') = Text ''not json''
   \<and> loads (one_document [image_rec] image_rec_text) ''not json'' = Inl ValueError
   \<and> load_notifications (one_document [image_rec] image_rec_text) broken_file ''C:/notifier''
        = ([], [ShowWarning ''Load''])"
proof -
  let ?cd = "one_document [image_rec] image_rec_text"
  have f: "no_files (storage_path ''C:/notifier'') = Missing"
    "locked_file (storage_path ''C:/notifier'') = Unreadable"
    "broken_file (storage_path ''C:/notifier'') = Text ''not json''"
    by (simp_all add: no_files_def locked_file_def broken_file_def)
  have l: "loads ?cd ''not json'' = Inl ValueError"
    by (simp add: one_document_def image_rec_text_def)
  show ?thesis
    using load_without_usable_file [of no_files "''C:/notifier''" ?cd]
      load_without_usable_file [of locked_file "''C:/notifier''" ?cd]
      load_without_usable_file [of broken_file "''C:/notifier''" ?cd] f l
    by simp
qed

text \<open>
  The stored text. Base64 decoding undoes the encoding, and \<open>json_load\<close> reads back
  what \<open>json_dump\<close> writes for dictionaries, that is, item lists without a repeated key.
\<close>

lemma b64_char_code:
  "n < 64 \<Longrightarrow> (of_char (b64_char n) :: nat) =
     (if n < 26 then 65 + n else if n < 52 then 71 + n else if n < 62 then n - 4
      else if n = 62 then 43 else 47)"
  by (simp add: b64_char_def)

lemma b64_val_b64_char: "n < 64 \<Longrightarrow> b64_val (b64_char n) = Some n"
  unfolding b64_val_def Let_def by (simp only: b64_char_code) (auto split: if_splits)

lemma b64_char_not_pad:
  assumes "n < 64"
  shows "b64_char n \<noteq> CHR ''=''"
proof
  assume "b64_char n = CHR ''=''"
  then have "(of_char (b64_char n) :: nat) = of_char CHR ''=''" by simp
  with assms show False by (simp only: b64_char_code) (simp split: if_splits)
qed

lemma b64_char_ascii: "n < 64 \<Longrightarrow> (of_char (b64_char n) :: nat) < 128"
  by (simp only: b64_char_code) (auto split: if_splits)

lemma a2b_symbol:
  "n < 64 \<Longrightarrow> a2b_base64 q l p (b64_char n # cs) =
     (if q = 0 then a2b_base64 1 n 0 cs
      else if q = 1 then emit (l * 4 + n div 16) (a2b_base64 2 (n mod 16) 0 cs)
      else if q = 2 then emit (l * 16 + n div 4) (a2b_base64 3 (n mod 4) 0 cs)
      else emit (l * 64 + n) (a2b_base64 0 0 0 cs))"
  by (simp add: b64_val_b64_char b64_char_not_pad)

lemma byte_bound: "(of_char (a :: char) :: nat) < 256"
  by (cases a) (simp add: )

lemma a2b_quad:
  "a2b_base64 0 l p (b64encode (a # b # c # rest)) =
     (case a2b_base64 0 0 0 (b64encode rest) of Inl err \<Rightarrow> Inl err
      | Inr bs \<Rightarrow> Inr (a # b # c # bs))"
proof -
  define x y z where "x = (of_char a :: nat)" and "y = (of_char b :: nat)" and "z = (of_char c :: nat)"
  define s1 s2 s3 s4 where "s1 = x div 4" and "s2 = x mod 4 * 16 + y div 16"
    and "s3 = y mod 16 * 4 + z div 64" and "s4 = z mod 64"
  have bx: "x < 256" and bz: "y < 256" "z < 256" by (simp_all add: x_def y_def z_def byte_bound)
  have n: "s1 < 64" "s2 < 64" "s3 < 64" "s4 < 64"
    using bx bz by (simp_all add: s1_def s2_def s3_def s4_def)
  have e: "s1 * 4 + s2 div 16 = x" "s2 mod 16 * 16 + s3 div 4 = y" "s3 mod 4 * 64 + s4 = z"
    using bx bz by (simp_all add: s1_def s2_def s3_def s4_def)
  have ca: "char_of x = a" "char_of y = b" "char_of z = c" by (simp_all add: x_def y_def z_def)
  have enc: "b64encode (a # b # c # rest) =
      b64_char s1 # b64_char s2 # b64_char s3 # b64_char s4 # b64encode rest"
    by (simp add: Let_def x_def y_def z_def s1_def s2_def s3_def s4_def)
  show ?thesis
    unfolding enc
    by (simp add: a2b_symbol n e ca emit_def del: a2b_base64.simps(2) split: sum.splits)
qed

lemma a2b_pair:
  "a2b_base64 0 l p (b64encode [a, b]) = Inr [a, b]"
proof -
  define x y where "x = (of_char a :: nat)" and "y = (of_char b :: nat)"
  define s1 s2 s3 where "s1 = x div 4" and "s2 = x mod 4 * 16 + y div 16"
    and "s3 = y mod 16 * 4"
  have bx: "x < 256" "y < 256" by (simp_all add: x_def y_def byte_bound)
  have n: "s1 < 64" "s2 < 64" "s3 < 64"
    using bx by (simp_all add: s1_def s2_def s3_def)
  have e: "s1 * 4 + s2 div 16 = x" "s2 mod 16 * 16 + s3 div 4 = y"
    using bx by (simp_all add: s1_def s2_def s3_def)
  have ca: "char_of x = a" "char_of y = b" by (simp_all add: x_def y_def)
  have enc: "b64encode [a, b] = [b64_char s1, b64_char s2, b64_char s3, CHR ''='']"
    by (simp add: Let_def x_def y_def s1_def s2_def s3_def)
  have pad: "a2b_base64 3 l' 0 (CHR ''='' # cs) = Inr []" for l' cs by simp
  show ?thesis
    unfolding enc
    by (simp add: a2b_symbol n e ca emit_def pad del: a2b_base64.simps(2))
qed

lemma a2b_single:
  "a2b_base64 0 l p (b64encode [a]) = Inr [a]"
proof -
  define x where "x = (of_char a :: nat)"
  define s1 s2 where "s1 = x div 4" and "s2 = x mod 4 * 16"
  have bx: "x < 256" by (simp_all add: x_def byte_bound)
  have n: "s1 < 64" "s2 < 64"
    using bx by (simp_all add: s1_def s2_def)
  have e: "s1 * 4 + s2 div 16 = x"
    using bx by (simp_all add: s1_def s2_def)
  have ca: "char_of x = a" by (simp_all add: x_def)
  have enc: "b64encode [a] = [b64_char s1, b64_char s2, CHR ''='', CHR ''='']"
    by (simp add: Let_def x_def s1_def s2_def)
  have pad: "a2b_base64 2 l' 0 [CHR ''='', CHR ''=''] = Inr []" for l' by simp
  show ?thesis
    unfolding enc
    by (simp add: a2b_symbol n e ca emit_def pad del: a2b_base64.simps(2))
qed

lemma a2b_b64encode: "a2b_base64 0 0 0 (b64encode bs) = Inr bs"
proof (induction bs rule: b64encode.induct)
  case 1
  show ?case by simp
next
  case (2 a)
  show ?case by (rule a2b_single)
next
  case (3 a b)
  show ?case by (rule a2b_pair)
next
  case (4 a b c rest)
  show ?case by (simp only: a2b_quad 4) simp
qed

lemma sextets:
  fixes x y z :: nat
  assumes "x < 256" and "y < 256" and "z < 256"
  shows "x div 4 < 64" and "x mod 4 * 16 < 64" and "x mod 4 * 16 + y div 16 < 64"
    and "y mod 16 * 4 < 64" and "y mod 16 * 4 + z div 64 < 64" and "z mod 64 < 64"
  using assms by simp_all

lemma b64encode_ascii: "c \<in> set (b64encode bs) \<Longrightarrow> (of_char c :: nat) < 128"
proof (induction bs arbitrary: c rule: b64encode.induct)
  case 1
  then show ?case by simp
next
  case (2 a)
  note s = sextets [OF byte_bound [of a] byte_bound [of a] byte_bound [of a]]
  from 2 show ?case by (auto simp add: Let_def b64_char_ascii s)
next
  case (3 a b)
  note s = sextets [OF byte_bound [of a] byte_bound [of b] byte_bound [of b]]
  from 3 show ?case by (auto simp add: Let_def b64_char_ascii s)
next
  case (4 a b c' rest)
  note s = sextets [OF byte_bound [of a] byte_bound [of b] byte_bound [of c']]
  from 4 show ?case by (auto simp add: Let_def b64_char_ascii s)
qed

lemma b64decode_b64encode: "b64decode (b64encode bs) = Inr bs"
proof -
  have "\<forall>c \<in> set (b64encode bs). \<not> 128 \<le> (of_char c :: nat)"
    by (simp add: b64encode_ascii not_le)
  then show ?thesis by (simp add: b64decode_def a2b_b64encode)
qed

lemma hex_val_hex_char: "n < 16 \<Longrightarrow> hex_val (hex_char n) = Some n"
  by (auto simp add: hex_val_def hex_char_def Let_def)

lemma scan_control:
  assumes "(of_char c :: nat) < 32"
  shows "scan_escape (CHR ''u'' # CHR ''0'' # CHR ''0'' # hex_char (of_char c div 16)
            # hex_char (of_char c mod 16) # r) = Some ([c], r)"
proof -
  have h: "hex_val (hex_char (of_char c div 16)) = Some (of_char c div 16)"
    "hex_val (hex_char (of_char c mod 16)) = Some (of_char c mod 16)"
    using assms by (simp_all add: hex_val_hex_char)
  have z: "hex_val CHR ''0'' = Some 0" by (simp add: hex_val_def)
  have e: "of_char c div 16 * 16 + of_char c mod 16 = (of_char c :: nat)" by simp
  have u: "utf8 (of_char c) = Some [c]" using assms by (simp add: utf8_def)
  have s: "\<not> 55296 \<le> (of_char c :: nat)" using assms by simp
  show ?thesis
    by (simp add: scan_escape_def scan_unicode_def hex4_def h z e u s)
qed

lemma scan_string_escape_char:
  "scan_string (escape_char c @ r) = map_option (\<lambda>(x, rest). (c # x, rest)) (scan_string r)"
proof (cases "c \<in> {CHR 0x22, CHR 0x5C, CHR 0x0A, CHR 0x0D, CHR 0x09, CHR 0x08, CHR 0x0C}")
  case True
  then show ?thesis
    by (auto simp add: escape_char_def scan_escape_def unescape_def)
next
  case n: False
  show ?thesis
  proof (cases "(of_char c :: nat) < 32")
    case True
    with n have "escape_char c = [CHR 0x5C, CHR ''u'', CHR ''0'', CHR ''0'',
         hex_char (of_char c div 16), hex_char (of_char c mod 16)]"
      by (simp add: escape_char_def)
    then show ?thesis by (simp add: scan_control [OF True])
  next
    case False
    with n show ?thesis by (simp add: escape_char_def)
  qed
qed

lemma scan_string_escaped:
  "scan_string (concat (map escape_char s) @ CHR 0x22 # r) = Some (s, r)"
proof (induction s)
  case Nil
  show ?case by simp
next
  case (Cons c s)
  then show ?case by (simp add: scan_string_escape_char del: scan_string.simps(2))
qed

lemma scan_digits_show_nat:
  "scan_digits acc (show_nat n @ r) = scan_digits (acc * 10 ^ length (show_nat n) + n) r"
proof (induction n arbitrary: acc r rule: show_nat.induct)
  case (1 n)
  show ?case
  proof (cases "n < 10")
    case True
    then show ?thesis
      by (subst (1 2) show_nat.simps) (simp add: digit_val_digit_char)
  next
    case False
    have m: "n mod 10 < 10" by simp
    have s: "show_nat n = show_nat (n div 10) @ [digit_char (n mod 10)]"
      using False by (subst show_nat.simps) simp
    have "scan_digits acc (show_nat n @ r)
          = scan_digits acc (show_nat (n div 10) @ digit_char (n mod 10) # r)"
      by (simp add: s)
    also have "\<dots> = scan_digits (acc * 10 ^ length (show_nat (n div 10)) + n div 10)
                        (digit_char (n mod 10) # r)"
      by (rule "1.IH" [OF False])
    also have "\<dots> = scan_digits ((acc * 10 ^ length (show_nat (n div 10)) + n div 10) * 10
                          + n mod 10) r"
      by (simp add: digit_val_digit_char [OF m])
    also have "(acc * 10 ^ length (show_nat (n div 10)) + n div 10) * 10 + n mod 10
               = acc * 10 ^ length (show_nat n) + n"
      by (simp add: s algebra_simps)
    finally show ?thesis .
  qed
qed

lemma show_nat_head:
  "\<exists>d cs. show_nat n = digit_char d # cs \<and> d < 10 \<and> (d = 0 \<longrightarrow> n = 0)"
proof (induction n rule: show_nat.induct)
  case (1 n)
  show ?case
  proof (cases "n < 10")
    case True
    then have "show_nat n = digit_char n # [] \<and> n < 10 \<and> (n = 0 \<longrightarrow> n = 0)"
      by (subst show_nat.simps) simp
    then show ?thesis by blast
  next
    case False
    from "1.IH" [OF False] obtain d cs where
      h: "show_nat (n div 10) = digit_char d # cs" "d < 10" "d = 0 \<longrightarrow> n div 10 = 0"
      by blast
    from False have "n div 10 \<noteq> 0" by simp
    with h have "d \<noteq> 0" by blast
    with h False have "show_nat n = digit_char d # (cs @ [digit_char (n mod 10)])
        \<and> d < 10 \<and> (d = 0 \<longrightarrow> n = 0)"
      by (subst show_nat.simps) simp
    then show ?thesis by blast
  qed
qed

lemma scan_nat_show_nat:
  assumes "digit_val c = None"
  shows "scan_nat (show_nat n @ c # r) = Some (n, c # r)"
proof -
  obtain d cs where h: "show_nat n = digit_char d # cs" "d < 10" "d = 0 \<longrightarrow> n = 0"
    using show_nat_head by blast
  show ?thesis
  proof (cases "n = 0")
    case True
    have "show_nat 0 = [digit_char 0]" by (subst show_nat.simps) simp
    with True show ?thesis by (simp add: scan_nat_def digit_val_digit_char)
  next
    case False
    with h have d: "d \<noteq> 0" by blast
    have "scan_digits 0 (show_nat n @ c # r) = (n, c # r)"
      by (simp add: scan_digits_show_nat assms)
    then have "scan_digits d (cs @ c # r) = (n, c # r)"
      by (simp add: h digit_val_digit_char)
    with d show ?thesis by (simp add: scan_nat_def h digit_val_digit_char)
  qed
qed

lemma show_nat_not_minus: "show_nat n = c # cs \<Longrightarrow> c \<noteq> CHR ''-''"
proof -
  assume a: "show_nat n = c # cs"
  obtain d cs' where h: "show_nat n = digit_char d # cs'" "d < 10"
    using show_nat_head by blast
  with a have "c = digit_char d" by simp
  with h(2) have "digit_val c = Some d" by (simp add: digit_val_digit_char)
  then show ?thesis by (auto simp add: digit_val_def)
qed

lemma scan_number_show_int:
  assumes "c = CHR '','' \<or> c = CHR 0x0A"
  shows "scan_number (show_int i @ c # r) = Some (i, c # r)"
proof -
  from assms have d: "digit_val c = None" by (auto simp add: digit_val_def)
  from assms have f: "\<not> float_follows (c # r)" by (auto simp add: float_follows_def)
  show ?thesis
  proof (cases "i < 0")
    case True
    then show ?thesis
      by (simp add: scan_number_def show_int_def scan_nat_show_nat [OF d] f)
  next
    case False
    obtain x xs where s: "show_nat (nat i) = x # xs"
      using show_nat_head [of "nat i"] by blast
    then have m: "x \<noteq> CHR ''-''" by (rule show_nat_not_minus)
    have "scan_nat (x # xs @ c # r) = Some (nat i, c # r)"
      using scan_nat_show_nat [OF d, of "nat i" r] by (simp add: s)
    with False m show ?thesis
      by (simp add: scan_number_def show_int_def s f)
  qed
qed

lemma show_int_head:
  "\<exists>x xs. show_int i = x # xs \<and> x \<noteq> CHR 0x22 \<and> x \<noteq> CHR ''n'' \<and> x \<noteq> CHR ''t''
      \<and> x \<noteq> CHR ''f'' \<and> \<not> is_ws x"
proof (cases "i < 0")
  case True
  then show ?thesis by (simp add: show_int_def is_ws_def)
next
  case False
  obtain d cs where h: "show_nat (nat i) = digit_char d # cs" "d < 10"
    using show_nat_head by blast
  then have "digit_val (digit_char d) = Some d" by (simp add: digit_val_digit_char)
  then have "digit_char d \<noteq> CHR 0x22 \<and> digit_char d \<noteq> CHR ''n'' \<and> digit_char d \<noteq> CHR ''t''
      \<and> digit_char d \<noteq> CHR ''f'' \<and> \<not> is_ws (digit_char d)"
    by (auto simp add: digit_val_def is_ws_def)
  with False h show ?thesis by (simp add: show_int_def)
qed

lemma scan_value_json_value:
  assumes "c = CHR '','' \<or> c = CHR 0x0A"
  shows "scan_value (json_value v @ c # r) = Some (v, c # r)"
proof (cases v)
  case PNone
  then show ?thesis by (simp add: scan_value_def literal_def)
next
  case (PBool b)
  then show ?thesis by (simp add: scan_value_def literal_def)
next
  case (PInt i)
  obtain x xs where h: "show_int i = x # xs" "x \<noteq> CHR 0x22" "x \<noteq> CHR ''n''" "x \<noteq> CHR ''t''"
      "x \<noteq> CHR ''f''"
    using show_int_head by blast
  have "scan_number (x # xs @ c # r) = Some (i, c # r)"
    using scan_number_show_int [OF assms, of i r] by (simp add: h)
  with PInt h show ?thesis by (simp add: scan_value_def)
next
  case (PStr s)
  then show ?thesis by (simp add: scan_value_def json_string_def scan_string_escaped)
qed

lemma skip_ws_json_value: "skip_ws (json_value v @ r) = json_value v @ r"
proof (cases v)
  case (PInt i)
  obtain x xs where h: "show_int i = x # xs" "\<not> is_ws x"
    using show_int_head by blast
  with PInt show ?thesis by (simp add: skip_ws_def)
qed (simp_all add: skip_ws_def is_ws_def json_string_def)

lemma skip_ws_newline_indent: "skip_ws (newline_indent k @ r) = skip_ws r"
proof -
  have "dropWhile is_ws (replicate (2 * k) CHR '' '' @ r) = dropWhile is_ws r"
    by (rule dropWhile_append2) (simp add: is_ws_def)
  then show ?thesis by (simp add: skip_ws_def newline_indent_def is_ws_def)
qed

lemma skip_ws_mark: "\<not> is_ws c \<Longrightarrow> skip_ws (c # r) = c # r"
  by (simp add: skip_ws_def)

lemma newline_indent_head: "newline_indent k @ r = CHR 0x0A # replicate (2 * k) CHR '' '' @ r"
  by (simp add: newline_indent_def)

lemma json_member_head: "\<exists>t. json_member m = CHR 0x22 # t"
  by (simp add: json_member_def json_string_def)

lemma scan_members_last:
  "scan_members (json_member (k, v) @ newline_indent 1 @ CHR ''}'' # r) = Some ([(k, v)], r)"
proof -
  have v: "scan_value (json_value v @ newline_indent 1 @ CHR ''}'' # r)
           = Some (v, newline_indent 1 @ CHR ''}'' # r)"
    unfolding newline_indent_head by (rule scan_value_json_value) simp
  have w: "skip_ws (newline_indent 1 @ CHR ''}'' # r) = CHR ''}'' # r"
    by (simp add: skip_ws_newline_indent skip_ws_mark is_ws_def)
  have c: "skip_ws (CHR '':'' # x) = CHR '':'' # x" for x
    by (simp add: skip_ws_mark is_ws_def)
  have s: "skip_ws (CHR '' '' # x) = skip_ws x" for x
    by (simp add: skip_ws_def is_ws_def)
  show ?thesis
    by (subst scan_members.simps)
      (simp add: json_member_def json_string_def scan_string_escaped c s skip_ws_json_value v w
        del: scan_string.simps One_nat_def)
qed

lemma scan_members_more:
  "scan_members (json_member (k, v) @ CHR '','' # newline_indent 2 @ r)
   = map_option (\<lambda>(ms, rest). ((k, v) # ms, rest)) (scan_members (skip_ws r))"
proof -
  have v: "scan_value (json_value v @ CHR '','' # newline_indent 2 @ r)
           = Some (v, CHR '','' # newline_indent 2 @ r)"
    by (rule scan_value_json_value) simp
  have w: "skip_ws (CHR '','' # x) = CHR '','' # x" for x
    by (simp add: skip_ws_mark is_ws_def)
  have c: "skip_ws (CHR '':'' # x) = CHR '':'' # x" for x
    by (simp add: skip_ws_mark is_ws_def)
  have s: "skip_ws (CHR '' '' # x) = skip_ws x" for x
    by (simp add: skip_ws_def is_ws_def)
  show ?thesis
    by (subst scan_members.simps)
      (simp add: json_member_def json_string_def scan_string_escaped c s skip_ws_json_value v w
        skip_ws_newline_indent del: scan_string.simps)
qed

lemma skip_ws_json_member: "skip_ws (json_member m @ r) = json_member m @ r"
  by (simp add: json_member_def json_string_def skip_ws_mark is_ws_def)

lemma join_members_head:
  "d \<noteq> [] \<Longrightarrow> \<exists>t. join sep (map json_member d) = CHR 0x22 # t"
proof (cases d)
  case Nil
  then show "d \<noteq> [] \<Longrightarrow> ?thesis" by simp
next
  case (Cons m ms)
  obtain t where t: "json_member m = CHR 0x22 # t" using json_member_head by blast
  from Cons t show ?thesis by (cases ms) simp_all
qed

lemma scan_members_join:
  "d \<noteq> [] \<Longrightarrow>
   scan_members (join (CHR '','' # newline_indent 2) (map json_member d)
                   @ newline_indent 1 @ CHR ''}'' # r) = Some (d, r)"
proof (induction d rule: list_nonempty_induct)
  case (single m)
  show ?case using scan_members_last [of "fst m" "snd m" r] by simp
next
  case (cons m ms)
  let ?rest = "join (CHR '','' # newline_indent 2) (map json_member ms)
                 @ newline_indent 1 @ CHR ''}'' # r"
  obtain t where t: "join (CHR '','' # newline_indent 2) (map json_member ms) = CHR 0x22 # t"
    using join_members_head [OF cons.hyps] by blast
  have w: "skip_ws ?rest = ?rest" by (simp add: t skip_ws_mark is_ws_def)
  obtain m' ms' where ms: "ms = m' # ms'" using cons.hyps by (cases ms) auto
  have "join (CHR '','' # newline_indent 2) (map json_member (m # ms))
          @ newline_indent 1 @ CHR ''}'' # r
        = json_member (fst m, snd m) @ CHR '','' # newline_indent 2 @ ?rest"
    by (simp add: ms)
  then show ?case
    by (simp only: scan_members_more w cons.IH) simp
qed

lemma dict_set_new: "k \<notin> fst ` set d \<Longrightarrow> dict_set d k v = d @ [(k, v)]"
  by (induction d) auto

lemma dict_of_items_distinct:
  assumes "distinct (map fst d)"
  shows "dict_of_items d = d"
proof -
  have "distinct (map fst (acc @ ps)) \<Longrightarrow>
        foldl (\<lambda>d (k, v). dict_set d k v) acc ps = acc @ ps" for acc ps
  proof (induction ps arbitrary: acc)
    case Nil
    show ?case by simp
  next
    case (Cons p ps)
    obtain k v where p: "p = (k, v)" by (cases p)
    from Cons.prems p have n: "k \<notin> fst ` set acc" by auto
    from Cons.prems have "distinct (map fst ((acc @ [p]) @ ps))" by simp
    from Cons.IH [OF this] show ?case by (simp add: p dict_set_new [OF n])
  qed
  from this [of "[]" d] assms show ?thesis by (simp add: dict_of_items_def)
qed

lemma json_object_head: "json_object d = CHR ''{'' # tl (json_object d)"
  by (simp add: json_object_def)

lemma scan_object_json_object:
  assumes "distinct (map fst d)"
  shows "scan_object (tl (json_object d) @ r) = Some (d, r)"
proof (cases "d = []")
  case True
  then show ?thesis by (simp add: json_object_def scan_object_def skip_ws_mark is_ws_def)
next
  case False
  let ?m = "join (CHR '','' # newline_indent 2) (map json_member d)"
  obtain t where t: "?m = CHR 0x22 # t" using join_members_head [OF False] by blast
  have b: "tl (json_object d) @ r = newline_indent 2 @ ?m @ newline_indent 1 @ CHR ''}'' # r"
    using False by (simp add: json_object_def)
  have w: "skip_ws (tl (json_object d) @ r) = CHR 0x22 # t @ newline_indent 1 @ CHR ''}'' # r"
    by (simp add: b skip_ws_newline_indent t skip_ws_mark is_ws_def)
  have "scan_members (CHR 0x22 # t @ newline_indent 1 @ CHR ''}'' # r) = Some (d, r)"
    using scan_members_join [OF False, of r] by (simp add: t)
  then show ?thesis
    by (simp add: scan_object_def w dict_of_items_distinct [OF assms])
qed

lemma scan_elements_last:
  assumes "distinct (map fst d)"
  shows "scan_elements (json_object d @ newline_indent 0 @ CHR '']'' # r) = Some ([d], r)"
proof -
  have w: "skip_ws (newline_indent 0 @ CHR '']'' # r) = CHR '']'' # r"
    by (simp add: skip_ws_newline_indent skip_ws_mark is_ws_def)
  have "scan_elements (CHR ''{'' # tl (json_object d) @ newline_indent 0 @ CHR '']'' # r)
        = Some ([d], r)"
    by (subst scan_elements.simps) (simp add: scan_object_json_object [OF assms] w)
  then show ?thesis by (subst json_object_head) simp
qed

lemma scan_elements_more:
  assumes "distinct (map fst d)"
  shows "scan_elements (json_object d @ CHR '','' # newline_indent 1 @ r)
         = map_option (\<lambda>(ds, rest). (d # ds, rest)) (scan_elements (skip_ws r))"
proof -
  have w: "skip_ws (CHR '','' # x) = CHR '','' # x" for x
    by (simp add: skip_ws_mark is_ws_def)
  have "scan_elements (CHR ''{'' # tl (json_object d) @ CHR '','' # newline_indent 1 @ r)
        = map_option (\<lambda>(ds, rest). (d # ds, rest)) (scan_elements (skip_ws r))"
    by (subst scan_elements.simps)
      (simp add: scan_object_json_object [OF assms] w skip_ws_newline_indent)
  then show ?thesis by (subst json_object_head) simp
qed

lemma join_objects_head:
  "ns \<noteq> [] \<Longrightarrow> \<exists>t. join sep (map json_object ns) = CHR ''{'' # t"
proof (cases ns)
  case Nil
  then show "ns \<noteq> [] \<Longrightarrow> ?thesis" by simp
next
  case (Cons d ds)
  obtain t where t: "json_object d = CHR ''{'' # t" using json_object_head by blast
  from Cons t show ?thesis by (cases ds) simp_all
qed

lemma scan_elements_join:
  "ns \<noteq> [] \<Longrightarrow> \<forall>d \<in> set ns. distinct (map fst d) \<Longrightarrow>
   scan_elements (join (CHR '','' # newline_indent 1) (map json_object ns)
                   @ newline_indent 0 @ CHR '']'' # r) = Some (ns, r)"
proof (induction ns rule: list_nonempty_induct)
  case (single d)
  then show ?case using scan_elements_last [of d r] by simp
next
  case (cons d ds)
  let ?rest = "join (CHR '','' # newline_indent 1) (map json_object ds)
                 @ newline_indent 0 @ CHR '']'' # r"
  obtain t where t: "join (CHR '','' # newline_indent 1) (map json_object ds) = CHR ''{'' # t"
    using join_objects_head [OF cons.hyps] by blast
  have w: "skip_ws ?rest = ?rest" by (simp add: t skip_ws_mark is_ws_def del: One_nat_def)
  obtain d' ds' where ds: "ds = d' # ds'" using cons.hyps by (cases ds) auto
  from cons.prems have dd: "distinct (map fst d)" and rest: "\<forall>d \<in> set ds. distinct (map fst d)"
    by simp_all
  have "join (CHR '','' # newline_indent 1) (map json_object (d # ds))
          @ newline_indent 0 @ CHR '']'' # r
        = json_object d @ CHR '','' # newline_indent 1 @ ?rest"
    by (simp add: ds)
  then show ?case
    by (simp only: scan_elements_more [OF dd] w cons.IH [OF rest]) simp
qed

lemma json_load_json_array:
  assumes "\<forall>d \<in> set ns. distinct (map fst d)"
  shows "json_load (json_array ns) = Inr ns"
proof (cases "ns = []")
  case True
  then show ?thesis
    by (simp add: json_load_def json_array_def scan_array_def skip_ws_mark is_ws_def skip_ws_def)
next
  case False
  let ?m = "join (CHR '','' # newline_indent 1) (map json_object ns)"
  obtain t where t: "?m = CHR ''{'' # t" using join_objects_head [OF False] by blast
  have a: "json_array ns = CHR ''['' # newline_indent 1 @ ?m @ newline_indent 0 @ [CHR '']'']"
    using False by (simp add: json_array_def)
  have w: "skip_ws (newline_indent 1 @ ?m @ newline_indent 0 @ [CHR '']''])
           = CHR ''{'' # t @ newline_indent 0 @ [CHR '']'']"
    by (simp add: skip_ws_newline_indent t skip_ws_mark is_ws_def del: One_nat_def)
  have "scan_elements (CHR ''{'' # t @ newline_indent 0 @ [CHR '']'']) = Some (ns, [])"
    using scan_elements_join [OF False assms, of "[]"] by (simp add: t del: One_nat_def)
  then have "scan_array (newline_indent 1 @ ?m @ newline_indent 0 @ [CHR '']'']) = Some (ns, [])"
    by (simp add: scan_array_def w del: One_nat_def)
  then show ?thesis
    by (simp add: json_load_def a skip_ws_mark is_ws_def skip_ws_def del: One_nat_def)
qed

text \<open>
  Claim C7. Let every record of the list be a dictionary (no key twice), and let
  \<open>save_notifications\<close> succeed on it, with the JSON codec of the library.
  Then \<open>load_notifications\<close> on the resulting file system returns that very list: the
  same records in the same order, each with the same keys and the same values, and it
  shows no warning. In particular, where a record holds the Base64 text of a byte string
  as its \<^verbatim>\<open>image\<close>, decoding the image of the loaded record gives those bytes.
\<close>

theorem save_load_roundtrip:
  assumes "\<forall>d \<in> set ns. distinct (map fst d)"
    and "save_notifications json_codec w fs base_dir ns = (fs', [])"
  shows "load_notifications json_codec fs' base_dir = (ns, [])
         \<and> (\<forall>i < length ns. \<forall>bs.
               as_notif (ns ! i) ''image'' = Some (PStr (b64encode bs)) \<longrightarrow>
               py_b64decode (dict_get (as_notif (fst (load_notifications json_codec fs' base_dir) ! i))
                               ''image'' PNone) = Inr bs)"
proof -
  from assms(2) have fs': "fs' = fs(storage_path base_dir := Text (json_array ns))"
    by (auto simp add: save_notifications_def json_codec_def json_dump_def Let_def
        split: sum.splits)
  have l: "load_notifications json_codec fs' base_dir = (ns, [])"
    by (simp add: load_notifications_def Let_def fs' json_codec_def
        json_load_json_array [OF assms(1)])
  have "py_b64decode (dict_get (as_notif (ns ! i)) ''image'' PNone) = Inr bs"
    if "as_notif (ns ! i) ''image'' = Some (PStr (b64encode bs))" for i bs
    using that by (simp add: dict_get_def b64decode_b64encode)
  with l show ?thesis by simp
qed

theorem save_load_roundtrip_witness:
  "save_notifications json_codec good_writer no_files ''C:/notifier'' [image_items]
     = (no_files(storage_path ''C:/notifier'' := Text image_rec_text), [])
   \<and> load_notifications json_codec
        (no_files(storage_path ''C:/notifier'' := Text image_rec_text)) ''C:/notifier''
     = ([image_items], [])
   \<and> py_b64decode
        (dict_get (as_notif (fst (load_notifications json_codec
             (no_files(storage_path ''C:/notifier'' := Text image_rec_text)) ''C:/notifier'') ! 0))
           ''image'' PNone) = Inr ''hi''
   \<and> as_notif image_items = image_rec"
proof -
  have e: "b64encode ''hi'' = ''aGk=''"
    by code_simp
  have v: "image_items = [(''title'', PStr ''Dentist''), (''image'', PStr ''aGk='')]"
    by (simp only: image_items_def e)
  have t: "json_array [image_items] = image_rec_text"
    by (simp add: json_array_def json_object_def json_member_def json_string_def
        escape_char_def newline_indent_def v image_rec_text_def numeral_2_eq_2)
  have s: "save_notifications json_codec good_writer no_files ''C:/notifier'' [image_items]
             = (no_files(storage_path ''C:/notifier'' := Text image_rec_text), [])"
    by (simp add: save_notifications_def json_codec_def json_dump_def good_writer_def t)
  have d: "\<forall>d \<in> set [image_items]. distinct (map fst d)"
    by (simp add: image_items_def)
  have i: "as_notif ([image_items] ! 0) ''image'' = Some (PStr (b64encode ''hi''))"
    by (simp add: as_notif_def image_items_def)
  have n: "as_notif image_items = image_rec"
    by (rule ext) (simp add: as_notif_def v image_rec_def)
  show ?thesis
    using save_load_roundtrip [OF d s, THEN conjunct1]
      save_load_roundtrip [OF d s, THEN conjunct2, rule_format, of 0 "''hi''"] s i n
    by simp
qed

section \<open>The poll cycle\<close>









text \<open>
  Outside these stages the loop has no handler of its own. When \<open>should_fire\<close> raises
  on a record, or the \<^verbatim>\<open>print\<close> of a fired record raises, the handler around the whole
  cycle takes over: the records behind it, due or not, wait for the next cycle.
\<close>

lemma cycle_ends_when_predicate_raises:
  "should_fire fri_0930 fri_0930 daily_rec = Inr True
   \<and> aborted (check_cycle toasts_fail calm_envs (one_document [image_rec] image_rec_text)
                 good_writer ''C:/notifier'' no_files [null_weekday_rec, daily_rec])
       = Some TypeError
   \<and> notifications (check_cycle toasts_fail calm_envs (one_document [image_rec] image_rec_text)
                       good_writer ''C:/notifier'' no_files [null_weekday_rec, daily_rec])
       = [null_weekday_rec, daily_rec]"
proof -
  have r: "dict_get daily_rec ''repeat'' (PStr ''Once'') = PStr ''Daily''"
    by (simp add: daily_rec_def dict_get_def)
  have f: "dict_get daily_rec ''time'' (PStr ''00:00'') = PStr ''09:30''"
    "dict_get daily_rec ''last_fired_date'' PNone = PNone"
    by (simp_all add: daily_rec_def once_rec_def dict_get_def)
  have s: "strftime_HM fri_0930 = ''09:30''" by code_simp
  have due: "should_fire fri_0930 fri_0930 daily_rec = Inr True"
    using f s by (simp add: should_fire_daily [OF r])
  have "should_fire fri_0930 fri_0930 null_weekday_rec = Inl TypeError"
    by (simp add: should_fire_def Let_def dict_get_def null_weekday_rec_def weekly_rec_def)
  then have "process_record toasts_fail (calm_envs 0) null_weekday_rec
               = (null_weekday_rec, [], False, Some TypeError)"
    by (simp add: process_record_def calm_envs_def calm_env_def)
  then have "check_cycle toasts_fail calm_envs (one_document [image_rec] image_rec_text)
               good_writer ''C:/notifier'' no_files [null_weekday_rec, daily_rec]
             = \<lparr>notifications = [null_weekday_rec, daily_rec], events = [], files = no_files,
                dialogs = [], aborted = Some TypeError\<rparr>"
    by (simp add: check_cycle_def)
  with due show ?thesis by simp
qed

lemma cycle_ends_when_print_raises:
  "should_fire fri_0930 fri_0930 daily_rec = Inr True
   \<and> aborted (check_cycle toasts_fail mute_envs (one_document [image_rec] image_rec_text)
                 good_writer ''C:/notifier'' no_files [once_rec, daily_rec])
       = Some ValueError
   \<and> notifications (check_cycle toasts_fail mute_envs (one_document [image_rec] image_rec_text)
                       good_writer ''C:/notifier'' no_files [once_rec, daily_rec])
       = [mark_fired fri_0930 once_rec, daily_rec]"
proof -
  let ?tr = "[(Sound, True), (PrimaryToast, False), (SecondaryToast, False),
              (GenericLibrary, True)]"
  have r: "dict_get daily_rec ''repeat'' (PStr ''Once'') = PStr ''Daily''"
    by (simp add: daily_rec_def dict_get_def)
  have f: "dict_get daily_rec ''time'' (PStr ''00:00'') = PStr ''09:30''"
    "dict_get daily_rec ''last_fired_date'' PNone = PNone"
    by (simp_all add: daily_rec_def once_rec_def dict_get_def)
  have s: "strftime_HM fri_0930 = ''09:30''" by code_simp
  have due: "should_fire fri_0930 fri_0930 daily_rec = Inr True"
    using f s by (simp add: should_fire_daily [OF r])
  have ro: "dict_get once_rec ''repeat'' (PStr ''Once'') = PStr ''Once''"
    by (simp add: once_rec_def dict_get_def)
  have fo: "dict_get once_rec ''delivered'' PNone = PBool False"
    "dict_get once_rec ''date'' PNone = PStr ''2024-01-05''"
    "dict_get once_rec ''time'' (PStr ''00:00'') = PStr ''09:30''"
    "dict_get once_rec ''image'' PNone = PNone"
    by (simp_all add: once_rec_def dict_get_def)
  have p: "strptime ''2024-01-05 09:30''
             = Inr \<lparr>year = 2024, month = 1, day = 5, hour = 9, minute = 30, second = 0\<rparr>"
    by code_simp
  have q: "strftime_Ymd_HM fri_0930 = ''2024-01-05 09:30''"
    "strftime_Ymd_HM \<lparr>year = 2024, month = 1, day = 5, hour = 9, minute = 30, second = 0\<rparr>
       = ''2024-01-05 09:30''"
    by code_simp+
  have sf1: "should_fire fri_0930 fri_0930 once_rec = Inr True"
    using ro fo p q by (simp add: should_fire_def Let_def)
  have "\<exists>h. process_record toasts_fail (mute_envs 0) once_rec
               = (mark_fired fri_0930 once_rec, [Handoff h], False, Some ValueError)"
    using sf1 fo
    by (simp add: process_record_def Let_def mute_envs_def mute_env_def calm_env_def
        send_notification_def)
  then obtain h where "process_record toasts_fail (mute_envs 0) once_rec
               = (mark_fired fri_0930 once_rec, [Handoff h], False, Some ValueError)"
    by blast
  then have "check_cycle toasts_fail mute_envs (one_document [image_rec] image_rec_text)
               good_writer ''C:/notifier'' no_files [once_rec, daily_rec]
             = \<lparr>notifications = [mark_fired fri_0930 once_rec, daily_rec], events = [Handoff h],
                files = no_files, dialogs = [], aborted = Some ValueError\<rparr>"
    by (simp add: check_cycle_def)
  with due show ?thesis by simp
qed

end
